theory Spec2Isabelle
  imports Complex_Main "HOL-Library.Multiset" "HOL-Library.Log_Nat"
begin

section \<open>JavaScript values\<close>

text \<open>
  The Reports component computes \<open>processedData\<close> over collections typed \<open>any[]\<close>, so the
  embedding works on dynamically typed values. Field values are the primitives of the language
  and arrays (the nested task collection of a project). Arrays carry a reference number, since
  \<open>===\<close> compares objects by identity.

  Numbers are the doubles of the language: \<open>NaN\<close>, the two infinities, and the finite doubles,
  each given by the rational number it denotes. Arithmetic rounds its exact result to the
  nearest double (see \<open>round_double\<close>). The two zeros are one value: \<open>===\<close> does not tell them
  apart, both print as \<open>0\<close>, and the only divisor of the pipeline is the length of a bucket.
\<close>

datatype jsnum = NaN | PInf | NInf | Fin rat

datatype jsval =
    VUndefined
  | VNull
  | VBool bool
  | VNum jsnum
  | VStr string
  | VArr nat "jsval list"

datatype error = TypeError

text \<open>
  What the language leaves to the host or to the engine is a parameter of the model:
  the offset of local time from UTC at an instant (milliseconds), the result of \<open>Date.parse\<close> on
  a string that is not a valid date-only ISO string, the collation of \<open>localeCompare\<close>, the
  rendering of an instant by \<open>toLocaleString('default', {month: 'short', year: 'numeric'})\<close>,
  the conversion of a string to a number, and the rendering of a number that is not an integer
  below \<open>10^21\<close>.
\<close>

record env =
  localTZA :: "int \<Rightarrow> int"
  parseOther :: "string \<Rightarrow> int option"
  localeCompare :: "string \<Rightarrow> string \<Rightarrow> int"
  monthYear :: "int \<Rightarrow> string"
  stringToNumber :: "string \<Rightarrow> jsnum"
  fracToString :: "rat \<Rightarrow> string"

subsection \<open>Truthiness and strict equality\<close>

fun truthy :: "jsval \<Rightarrow> bool" where
  "truthy VUndefined = False"
| "truthy VNull = False"
| "truthy (VBool b) = b"
| "truthy (VNum NaN) = False"
| "truthy (VNum PInf) = True"
| "truthy (VNum NInf) = True"
| "truthy (VNum (Fin r)) = (r \<noteq> 0)"
| "truthy (VStr s) = (s \<noteq> [])"
| "truthy (VArr i xs) = True"

text \<open>\<open>a === b\<close>: equal types and equal values; \<open>NaN\<close> differs from itself; arrays by reference.\<close>

fun strict_eq :: "jsval \<Rightarrow> jsval \<Rightarrow> bool" where
  "strict_eq VUndefined VUndefined = True"
| "strict_eq VNull VNull = True"
| "strict_eq (VBool a) (VBool b) = (a = b)"
| "strict_eq (VNum a) (VNum b) = (a \<noteq> NaN \<and> a = b)"
| "strict_eq (VStr s) (VStr t) = (s = t)"
| "strict_eq (VArr i xs) (VArr j ys) = (i = j)"
| "strict_eq _ _ = False"

subsection \<open>Numbers and strings\<close>

definition digit_char :: "nat \<Rightarrow> char" where
  "digit_char d = ''0123456789'' ! d"

fun dec_nat :: "nat \<Rightarrow> string" where
  "dec_nat n = (if n < 10 then [digit_char n] else dec_nat (n div 10) @ [digit_char (n mod 10)])"

declare dec_nat.simps [simp del]

definition is_integer :: "rat \<Rightarrow> bool" where
  "is_integer r = (of_int \<lfloor>r\<rfloor> = r)"

text \<open>\<open>Number::toString\<close>: an integer below \<open>10^21\<close> in magnitude prints in decimal.\<close>

definition num_to_string :: "env \<Rightarrow> jsnum \<Rightarrow> string" where
  "num_to_string e n =
     (case n of
        NaN \<Rightarrow> ''NaN''
      | PInf \<Rightarrow> ''Infinity''
      | NInf \<Rightarrow> ''-Infinity''
      | Fin r \<Rightarrow>
          if is_integer r \<and> \<bar>r\<bar> < 10 ^ 21
          then (if r < 0 then ''-'' @ dec_nat (nat (- \<lfloor>r\<rfloor>)) else dec_nat (nat \<lfloor>r\<rfloor>))
          else fracToString e r)"

text \<open>
  \<open>ToString\<close>. An array prints its elements joined by commas, \<open>undefined\<close> and \<open>null\<close>
  elements as the empty string.
\<close>

fun to_string :: "env \<Rightarrow> jsval \<Rightarrow> string"
  and join_elems :: "env \<Rightarrow> jsval list \<Rightarrow> string" where
  "to_string e VUndefined = ''undefined''"
| "to_string e VNull = ''null''"
| "to_string e (VBool b) = (if b then ''true'' else ''false'')"
| "to_string e (VNum n) = num_to_string e n"
| "to_string e (VStr s) = s"
| "to_string e (VArr i xs) = join_elems e xs"
| "join_elems e [] = []"
| "join_elems e (x # xs) =
     (case x of VUndefined \<Rightarrow> [] | VNull \<Rightarrow> [] | _ \<Rightarrow> to_string e x)
     @ (if xs = [] then [] else '','' @ join_elems e xs)"

text \<open>\<open>ToPrimitive\<close>: an array becomes its string.\<close>

fun to_primitive :: "env \<Rightarrow> jsval \<Rightarrow> jsval" where
  "to_primitive e (VArr i xs) = VStr (to_string e (VArr i xs))"
| "to_primitive e v = v"

fun to_number :: "env \<Rightarrow> jsval \<Rightarrow> jsnum" where
  "to_number e VUndefined = NaN"
| "to_number e VNull = Fin 0"
| "to_number e (VBool b) = Fin (if b then 1 else 0)"
| "to_number e (VNum n) = n"
| "to_number e (VStr s) = stringToNumber e s"
| "to_number e (VArr i xs) = stringToNumber e (to_string e (VArr i xs))"

text \<open>
  Rounding to the nearest double, ties to the even significand. A double is a multiple of a
  power of two by an integer below \<open>2^53\<close> in magnitude; the power is \<open>2^(e - 52)\<close> for a number
  between \<open>2^e\<close> and \<open>2^(e + 1)\<close>, and never less than \<open>2^(-1074)\<close>, the smallest positive double.
  A result whose exponent after rounding is 1024 or more, that is a magnitude of \<open>2^1024\<close> or
  more, is an infinity.
\<close>

definition pow2 :: "int \<Rightarrow> rat" where
  "pow2 k = (if k \<ge> 0 then 2 ^ nat k else 1 / 2 ^ nat (- k))"

text \<open>The exponent \<open>e\<close> of a positive number \<open>a\<close>: \<open>2^e \<le> a < 2^(e + 1)\<close>.\<close>

definition ilog2 :: "rat \<Rightarrow> int" where
  "ilog2 a = (if a \<ge> 1 then bitlen \<lfloor>a\<rfloor> - 1 else - bitlen (\<lceil>1 / a\<rceil> - 1))"

definition round_even :: "rat \<Rightarrow> int" where
  "round_even m =
     (let f = \<lfloor>m\<rfloor>; d = m - of_int f in
      if d < 1 / 2 then f else if d > 1 / 2 then f + 1 else if even f then f else f + 1)"

definition round_double :: "rat \<Rightarrow> jsnum" where
  "round_double r =
     (if r = 0 then Fin 0
      else
        (let a = \<bar>r\<bar>;
             q = max (ilog2 a - 52) (- 1074);
             y = of_int (round_even (a / pow2 q)) * pow2 q
         in if ilog2 y \<ge> 1024 then (if r > 0 then PInf else NInf)
            else Fin (if r > 0 then y else - y)))"

text \<open>\<open>a + b\<close> on numbers: the exact sum, rounded; opposite infinities add to \<open>NaN\<close>.\<close>

fun num_add :: "jsnum \<Rightarrow> jsnum \<Rightarrow> jsnum" where
  "num_add (Fin a) (Fin b) = round_double (a + b)"
| "num_add NaN _ = NaN"
| "num_add _ NaN = NaN"
| "num_add PInf NInf = NaN"
| "num_add NInf PInf = NaN"
| "num_add PInf _ = PInf"
| "num_add _ PInf = PInf"
| "num_add NInf _ = NInf"
| "num_add _ NInf = NInf"

text \<open>
  \<open>a / b\<close> on numbers: the exact quotient, rounded. A finite number over an infinity is zero,
  an infinity over an infinity is \<open>NaN\<close>, and a division by zero (the zero of the model stands
  for \<open>+0\<close>, as a length is) gives \<open>NaN\<close> for zero and an infinity of the sign of the dividend
  otherwise.
\<close>

fun num_div :: "jsnum \<Rightarrow> jsnum \<Rightarrow> jsnum" where
  "num_div NaN _ = NaN"
| "num_div _ NaN = NaN"
| "num_div (Fin a) (Fin b) =
     (if b = 0 then (if a = 0 then NaN else if a > 0 then PInf else NInf)
      else round_double (a / b))"
| "num_div (Fin a) _ = Fin 0"
| "num_div PInf (Fin b) = (if b \<ge> 0 then PInf else NInf)"
| "num_div NInf (Fin b) = (if b \<ge> 0 then NInf else PInf)"
| "num_div _ _ = NaN"

text \<open>\<open>a + b\<close>: concatenation as soon as one operand is a string, addition of numbers otherwise.\<close>

definition js_add :: "env \<Rightarrow> jsval \<Rightarrow> jsval \<Rightarrow> jsval" where
  "js_add e a b =
     (let pa = to_primitive e a; pb = to_primitive e b in
      case (pa, pb) of
        (VStr s, _) \<Rightarrow> VStr (s @ to_string e pb)
      | (_, VStr t) \<Rightarrow> VStr (to_string e pa @ t)
      | _ \<Rightarrow> VNum (num_add (to_number e pa) (to_number e pb)))"

definition js_div :: "env \<Rightarrow> jsval \<Rightarrow> jsval \<Rightarrow> jsval" where
  "js_div e a b = VNum (num_div (to_number e a) (to_number e b))"

text \<open>\<open>s.padStart(2, '0')\<close>\<close>

definition padStart2 :: "string \<Rightarrow> string" where
  "padStart2 s = (if length s \<ge> 2 then s else replicate (2 - length s) CHR ''0'' @ s)"

section \<open>Dates\<close>

text \<open>
  A \<open>Date\<close> object is its time value: milliseconds since the epoch in UTC, or no value for an
  invalid date (\<open>NaN\<close> in the language).
\<close>

type_synonym date = "int option"

definition digit_val :: "char \<Rightarrow> nat option" where
  "digit_val c = map_of (zip ''0123456789'' [0, 1, 2, 3, 4, 5, 6, 7, 8, 9]) c"

fun digits_val :: "nat \<Rightarrow> string \<Rightarrow> nat option" where
  "digits_val acc [] = Some acc"
| "digits_val acc (c # cs) =
     (case digit_val c of None \<Rightarrow> None | Some d \<Rightarrow> digits_val (10 * acc + d) cs)"

definition is_leap :: "int \<Rightarrow> bool" where
  "is_leap y = (y mod 4 = 0 \<and> (y mod 100 \<noteq> 0 \<or> y mod 400 = 0))"

definition days_in_month :: "int \<Rightarrow> int \<Rightarrow> int" where
  "days_in_month y m =
     (if m = 2 then (if is_leap y then 29 else 28)
      else if m = 4 \<or> m = 6 \<or> m = 9 \<or> m = 11 then 30 else 31)"

text \<open>Days since 1970-01-01 of a date of the proleptic Gregorian calendar, and back.\<close>

definition days_from_civil :: "int \<Rightarrow> int \<Rightarrow> int \<Rightarrow> int" where
  "days_from_civil y m d =
     (let y' = (if m \<le> 2 then y - 1 else y);
          era = y' div 400;
          yoe = y' mod 400;
          doy = (153 * (if m > 2 then m - 3 else m + 9) + 2) div 5 + d - 1;
          doe = yoe * 365 + yoe div 4 - yoe div 100 + doy
      in era * 146097 + doe - 719468)"

definition civil_from_days :: "int \<Rightarrow> int \<times> int \<times> int" where
  "civil_from_days z =
     (let z' = z + 719468;
          era = z' div 146097;
          doe = z' mod 146097;
          yoe = (doe - doe div 1460 + doe div 36524 - doe div 146096) div 365;
          doy = doe - (365 * yoe + yoe div 4 - yoe div 100);
          mp = (5 * doy + 2) div 153;
          d = doy - (153 * mp + 2) div 5 + 1;
          m = (if mp < 10 then mp + 3 else mp - 9);
          y = yoe + era * 400
      in ((if m \<le> 2 then y + 1 else y), m, d))"

definition msPerDay :: int where
  "msPerDay = 86400000"

text \<open>
  The date-only forms of the ISO format of \<open>Date.parse\<close>: \<open>YYYY\<close>, \<open>YYYY-MM\<close> and
  \<open>YYYY-MM-DD\<close>, with a month from 01 to 12 and a day that the month has.
\<close>

definition iso_fields :: "string \<Rightarrow> (nat \<times> nat \<times> nat) option" where
  "iso_fields s =
     (if length s = 10 \<and> s ! 4 = CHR ''-'' \<and> s ! 7 = CHR ''-'' then
        (case (digits_val 0 (take 4 s), digits_val 0 (take 2 (drop 5 s)), digits_val 0 (drop 8 s)) of
           (Some y, Some m, Some d) \<Rightarrow> Some (y, m, d)
         | _ \<Rightarrow> None)
      else if length s = 7 \<and> s ! 4 = CHR ''-'' then
        (case (digits_val 0 (take 4 s), digits_val 0 (drop 5 s)) of
           (Some y, Some m) \<Rightarrow> Some (y, m, 1)
         | _ \<Rightarrow> None)
      else if length s = 4 then
        (case digits_val 0 s of Some y \<Rightarrow> Some (y, 1, 1) | None \<Rightarrow> None)
      else None)"

definition parse_iso_date :: "string \<Rightarrow> int option" where
  "parse_iso_date s =
     (case iso_fields s of
        None \<Rightarrow> None
      | Some (y, m, d) \<Rightarrow>
          if 1 \<le> m \<and> m \<le> 12 \<and> 1 \<le> d \<and> int d \<le> days_in_month (int y) (int m)
          then Some (days_from_civil (int y) (int m) (int d) * msPerDay)
          else None)"

text \<open>
  \<open>Date.parse\<close>: a date-only ISO string is midnight UTC of that day; what any other string
  gives is up to the engine.
\<close>

definition date_parse :: "env \<Rightarrow> string \<Rightarrow> date" where
  "date_parse e s = (case parse_iso_date s of Some t \<Rightarrow> Some t | None \<Rightarrow> parseOther e s)"

definition time_clip :: "jsnum \<Rightarrow> date" where
  "time_clip n =
     (case n of
        NaN \<Rightarrow> None
      | PInf \<Rightarrow> None
      | NInf \<Rightarrow> None
      | Fin r \<Rightarrow>
          if \<bar>r\<bar> > 8640000000000000 then None
          else Some (if r \<ge> 0 then \<lfloor>r\<rfloor> else \<lceil>r\<rceil>))"

text \<open>\<open>new Date(v)\<close>: a string is parsed, any other value is converted to a number of milliseconds.\<close>

definition new_Date :: "env \<Rightarrow> jsval \<Rightarrow> date" where
  "new_Date e v =
     (case to_primitive e v of
        VStr s \<Rightarrow> date_parse e s
      | p \<Rightarrow> time_clip (to_number e p))"

text \<open>
  \<open>a >= b\<close> and \<open>a <= b\<close> on two \<open>Date\<close> objects compare the time values; a comparison with an
  invalid date is false.
\<close>

definition date_ge :: "date \<Rightarrow> date \<Rightarrow> bool" where
  "date_ge a b = (case (a, b) of (Some x, Some y) \<Rightarrow> x \<ge> y | _ \<Rightarrow> False)"

definition date_le :: "date \<Rightarrow> date \<Rightarrow> bool" where
  "date_le a b = (case (a, b) of (Some x, Some y) \<Rightarrow> x \<le> y | _ \<Rightarrow> False)"

text \<open>\<open>getFullYear()\<close> and \<open>getMonth()\<close> read the date in local time; the month counts from 0.\<close>

definition local_civil :: "env \<Rightarrow> int \<Rightarrow> int \<times> int \<times> int" where
  "local_civil e t = civil_from_days ((t + localTZA e t) div msPerDay)"

definition getFullYear :: "env \<Rightarrow> date \<Rightarrow> jsnum" where
  "getFullYear e d =
     (case d of None \<Rightarrow> NaN | Some t \<Rightarrow> Fin (of_int (fst (local_civil e t))))"

definition getMonth :: "env \<Rightarrow> date \<Rightarrow> jsnum" where
  "getMonth e d =
     (case d of None \<Rightarrow> NaN | Some t \<Rightarrow> Fin (of_int (fst (snd (local_civil e t)) - 1)))"

text \<open>
  \<open>toLocaleString('default', { month: 'short', year: 'numeric' })\<close>: an invalid date renders
  as \<open>Invalid Date\<close> in every locale.
\<close>

definition toLocaleString :: "env \<Rightarrow> date \<Rightarrow> string" where
  "toLocaleString e d = (case d of None \<Rightarrow> ''Invalid Date'' | Some t \<Rightarrow> monthYear e t)"

section \<open>The reporting pipeline\<close>

text \<open>
  A record of a collection is an object with data properties: a list of field names, each
  once, and values, read by \<open>item[key]\<close>, which is \<open>undefined\<close> for a field the record does
  not have. The pipeline reads records at the field names of the user interface only (the date
  field of the data source, the group field, the filter keys, \<open>amount\<close>, \<open>tasks\<close>, \<open>id\<close>,
  \<open>name\<close>), so the members a record inherits from \<open>Object.prototype\<close> play no part in the
  model of a record.
\<close>

type_synonym item = "(string \<times> jsval) list"

definition get_prop :: "item \<Rightarrow> string \<Rightarrow> jsval" where
  "get_prop item k = (case map_of item k of None \<Rightarrow> VUndefined | Some v \<Rightarrow> v)"

text \<open>
  The \<open>filters\<close> state: the \<open>dateRange\<close> entry (absent, or an object with \<open>start\<close> and \<open>end\<close>)
  and the remaining entries \<open>otherFilters\<close>, one per key.
\<close>

record date_range =
  range_start :: jsval
  range_end :: jsval

record filters =
  dateRange :: "date_range option"
  otherFilters :: "(string \<times> jsval) list"

subsection \<open>Stage 1: filter\<close>

text \<open>\<open>dateRange?.start\<close> and \<open>dateRange?.end\<close>\<close>

definition start_of :: "filters \<Rightarrow> jsval" where
  "start_of fs = (case dateRange fs of None \<Rightarrow> VUndefined | Some r \<Rightarrow> range_start r)"

definition end_of :: "filters \<Rightarrow> jsval" where
  "end_of fs = (case dateRange fs of None \<Rightarrow> VUndefined | Some r \<Rightarrow> range_end r)"

definition passes :: "env \<Rightarrow> string \<Rightarrow> filters \<Rightarrow> item \<Rightarrow> bool" where
  "passes e dateKey fs item =
     (let p0 = True;
          p1 = (if truthy (start_of fs) \<and> dateKey \<noteq> []
                then p0 \<and> date_ge (new_Date e (get_prop item dateKey)) (new_Date e (start_of fs))
                else p0);
          p2 = (if truthy (end_of fs) \<and> dateKey \<noteq> []
                then p1 \<and> date_le (new_Date e (get_prop item dateKey)) (new_Date e (end_of fs))
                else p1)
      in fold (\<lambda>(key, v) p.
                 if truthy v \<and> \<not> strict_eq v (VStr ''all'')
                 then p \<and> strict_eq (get_prop item key) v else p)
              (otherFilters fs) p2)"

definition filteredData :: "env \<Rightarrow> string \<Rightarrow> filters \<Rightarrow> item list \<Rightarrow> item list" where
  "filteredData e dateKey fs baseData = filter (passes e dateKey fs) baseData"

subsection \<open>Stage 2: group\<close>

record bucket =
  name :: jsval
  items :: "item list"

text \<open>
  The accumulator \<open>acc\<close> of the reduction is a plain object: its own properties in order of
  creation. A property read \<open>acc[key]\<close> converts the key to a string and, when \<open>acc\<close> has no own
  property of that name, finds the members of \<open>Object.prototype\<close>, which are functions (and, for
  \<open>__proto__\<close>, the prototype object): truthy values without an \<open>items\<close> property.
\<close>

type_synonym acc = "(string \<times> bucket) list"

definition protoKeys :: "string list" where
  "protoKeys =
     [''constructor'', ''__defineGetter__'', ''__defineSetter__'', ''hasOwnProperty'',
      ''__lookupGetter__'', ''__lookupSetter__'', ''isPrototypeOf'', ''propertyIsEnumerable'',
      ''toString'', ''valueOf'', ''__proto__'', ''toLocaleString'']"

definition group_key :: "env \<Rightarrow> string \<Rightarrow> string \<Rightarrow> item \<Rightarrow> jsval" where
  "group_key e groupBy dateKey item =
     (if groupBy = ''month'' then
        (let date = new_Date e (get_prop item dateKey) in
         VStr (to_string e (VNum (getFullYear e date)) @ ''-'' @
               padStart2 (to_string e (js_add e (VNum (getMonth e date)) (VNum (Fin 1))))))
      else get_prop item groupBy)"

definition push_item :: "string \<Rightarrow> item \<Rightarrow> acc \<Rightarrow> acc" where
  "push_item k item acc =
     map (\<lambda>(k', b). if k' = k then (k', b\<lparr>items := items b @ [item]\<rparr>) else (k', b)) acc"

definition group_step :: "env \<Rightarrow> string \<Rightarrow> string \<Rightarrow> acc \<Rightarrow> item \<Rightarrow> error + acc" where
  "group_step e groupBy dateKey acc item =
     (let key = group_key e groupBy dateKey item in
      if strict_eq key VUndefined \<or> strict_eq key VNull then Inr acc
      else
        (let k = to_string e key in
         case map_of acc k of
           Some b \<Rightarrow> Inr (push_item k item acc)
         | None \<Rightarrow>
             if k \<in> set protoKeys then Inl TypeError
             else Inr (acc @ [(k, \<lparr>name = key, items = [item]\<rparr>)])))"

fun grouped :: "env \<Rightarrow> string \<Rightarrow> string \<Rightarrow> acc \<Rightarrow> item list \<Rightarrow> error + acc" where
  "grouped e groupBy dateKey acc [] = Inr acc"
| "grouped e groupBy dateKey acc (item # rest) =
     (case group_step e groupBy dateKey acc item of
        Inl err \<Rightarrow> Inl err
      | Inr acc' \<Rightarrow> grouped e groupBy dateKey acc' rest)"

text \<open>
  \<open>Object.values\<close> lists the properties whose names are array indices (canonical decimal
  numbers below \<open>2^32 - 1\<close>) first, in ascending numeric order, then the others in order of
  creation.
\<close>

definition is_array_index :: "string \<Rightarrow> bool" where
  "is_array_index s =
     (case digits_val 0 s of
        None \<Rightarrow> False
      | Some n \<Rightarrow> s \<noteq> [] \<and> dec_nat n = s \<and> int n < 4294967295)"

definition index_of :: "string \<Rightarrow> nat" where
  "index_of s = (case digits_val 0 s of None \<Rightarrow> 0 | Some n \<Rightarrow> n)"

definition object_values :: "acc \<Rightarrow> bucket list" where
  "object_values acc =
     map snd (sort_key (\<lambda>(k, b). index_of k) (filter (\<lambda>(k, b). is_array_index k) acc)
              @ filter (\<lambda>(k, b). \<not> is_array_index k) acc)"

subsection \<open>Stages 3 and 4: metric and label\<close>

record ReportPoint =
  name :: jsval
  "value" :: jsval

text \<open>\<open>list.find(c => c.id === name)?.name || name\<close>\<close>

definition find_name :: "item list \<Rightarrow> jsval \<Rightarrow> jsval" where
  "find_name cs n =
     (let found = (case find (\<lambda>c. strict_eq (get_prop c ''id'') n) cs of
                     None \<Rightarrow> VUndefined
                   | Some c \<Rightarrow> get_prop c ''name'')
      in if truthy found then found else n)"

definition display_name :: "env \<Rightarrow> string \<Rightarrow> item list \<Rightarrow> item list \<Rightarrow> bucket \<Rightarrow> jsval" where
  "display_name e groupBy clients teamMembers g =
     (let n0 = bucket.name g;
          n1 = (if groupBy = ''clientId'' then find_name clients n0 else n0);
          n2 = (if groupBy = ''createdById'' \<or> groupBy = ''assignedToId''
                then find_name teamMembers n1 else n1)
      in if groupBy = ''month''
         then VStr (toLocaleString e (new_Date e (VStr (to_string e n2 @ ''-02''))))
         else n2)"

text \<open>\<open>items.reduce((sum, i) => sum + i.amount, 0)\<close>\<close>

definition sum_amount :: "env \<Rightarrow> item list \<Rightarrow> jsval" where
  "sum_amount e its = fold (\<lambda>i acc. js_add e acc (get_prop i ''amount'')) its (VNum (Fin 0))"

text \<open>
  \<open>v.length\<close>: reading a property of \<open>undefined\<close> or \<open>null\<close> throws; a string and an array have a
  length; a number or a boolean has no such property.
\<close>

definition length_of :: "jsval \<Rightarrow> error + jsval" where
  "length_of v =
     (case v of
        VUndefined \<Rightarrow> Inl TypeError
      | VNull \<Rightarrow> Inl TypeError
      | VStr s \<Rightarrow> Inr (VNum (Fin (of_nat (length s))))
      | VArr i xs \<Rightarrow> Inr (VNum (Fin (of_nat (length xs))))
      | _ \<Rightarrow> Inr VUndefined)"

text \<open>\<open>items.reduce((sum, i) => sum + i.tasks.length, 0)\<close>\<close>

fun sum_tasks :: "env \<Rightarrow> jsval \<Rightarrow> item list \<Rightarrow> error + jsval" where
  "sum_tasks e acc [] = Inr acc"
| "sum_tasks e acc (i # its) =
     (case length_of (get_prop i ''tasks'') of
        Inl err \<Rightarrow> Inl err
      | Inr n \<Rightarrow> sum_tasks e (js_add e acc n) its)"

definition count_of :: "item list \<Rightarrow> jsval" where
  "count_of its = VNum (Fin (of_nat (length its)))"

definition metric_value :: "env \<Rightarrow> string \<Rightarrow> item list \<Rightarrow> error + jsval" where
  "metric_value e metric its =
     (if metric = ''count'' then Inr (count_of its)
      else if metric = ''totalAmount'' then Inr (sum_amount e its)
      else if metric = ''avgAmount'' then
        Inr (if length its > 0 then js_div e (sum_amount e its) (count_of its) else VNum (Fin 0))
      else if metric = ''taskCount'' then sum_tasks e (VNum (Fin 0)) its
      else Inr (count_of its))"

definition to_point ::
  "env \<Rightarrow> string \<Rightarrow> string \<Rightarrow> item list \<Rightarrow> item list \<Rightarrow> bucket \<Rightarrow> error + ReportPoint" where
  "to_point e groupBy metric clients teamMembers g =
     (case metric_value e metric (items g) of
        Inl err \<Rightarrow> Inl err
      | Inr v \<Rightarrow> Inr \<lparr>name = display_name e groupBy clients teamMembers g, value = v\<rparr>)"

fun map_points :: "(bucket \<Rightarrow> error + ReportPoint) \<Rightarrow> bucket list \<Rightarrow> error + ReportPoint list" where
  "map_points f [] = Inr []"
| "map_points f (g # gs) =
     (case f g of
        Inl err \<Rightarrow> Inl err
      | Inr p \<Rightarrow> (case map_points f gs of Inl err \<Rightarrow> Inl err | Inr ps \<Rightarrow> Inr (p # ps)))"

subsection \<open>Stage 5: order\<close>

text \<open>
  The comparator of the final \<open>sort\<close>: \<open>localeCompare\<close> of two names that are both strings,
  0 otherwise.
\<close>

definition compare_points :: "env \<Rightarrow> ReportPoint \<Rightarrow> ReportPoint \<Rightarrow> int" where
  "compare_points e a b =
     (case (ReportPoint.name a, ReportPoint.name b) of
        (VStr s, VStr t) \<Rightarrow> localeCompare e s t
      | _ \<Rightarrow> 0)"

text \<open>
  \<open>Array.prototype.sort\<close> is stable. It is modelled by the stable insertion sort: for a
  comparator that is a consistent order, every stable sort gives this result; for any other
  comparator the language leaves the order to the engine.
\<close>

fun insert_by :: "('a \<Rightarrow> 'a \<Rightarrow> int) \<Rightarrow> 'a \<Rightarrow> 'a list \<Rightarrow> 'a list" where
  "insert_by cmp x [] = [x]"
| "insert_by cmp x (y # ys) = (if cmp x y \<le> 0 then x # y # ys else y # insert_by cmp x ys)"

definition js_sort :: "('a \<Rightarrow> 'a \<Rightarrow> int) \<Rightarrow> 'a list \<Rightarrow> 'a list" where
  "js_sort cmp xs = foldr (insert_by cmp) xs []"

subsection \<open>The memoised computation\<close>

datatype ReportMode = Database | File

datatype DataSource = Donations | Activities | Projects | Cases

record props =
  projects :: "item list"
  clients :: "item list"
  donations :: "item list"
  activities :: "item list"
  cases :: "item list"
  teamMembers :: "item list"

record state =
  reportMode :: ReportMode
  dataSource :: DataSource
  filters :: filters
  groupBy :: string
  metric :: string

definition baseData :: "props \<Rightarrow> DataSource \<Rightarrow> item list" where
  "baseData ps src =
     (case src of
        Donations \<Rightarrow> donations ps
      | Activities \<Rightarrow> activities ps
      | Projects \<Rightarrow> projects ps
      | Cases \<Rightarrow> cases ps)"

definition dateKey :: "DataSource \<Rightarrow> string" where
  "dateKey src =
     (case src of
        Donations \<Rightarrow> ''donationDate''
      | Activities \<Rightarrow> ''activityDate''
      | Projects \<Rightarrow> ''startDate''
      | Cases \<Rightarrow> ''createdAt'')"

text \<open>
  The pipeline on a collection and its date field: filter, group (nothing without a
  \<open>groupBy\<close>), metric and label per bucket, sort.
\<close>

definition pipeline ::
  "env \<Rightarrow> item list \<Rightarrow> item list \<Rightarrow> item list \<Rightarrow> string \<Rightarrow> filters \<Rightarrow> string \<Rightarrow> string
   \<Rightarrow> error + ReportPoint list" where
  "pipeline e cls tms base dk fs gb m =
     (let fd = filteredData e dk fs base in
      if gb = [] then Inr []
      else
        (case grouped e gb dk [] fd of
           Inl err \<Rightarrow> Inl err
         | Inr acc \<Rightarrow>
             (case map_points (to_point e gb m cls tms) (object_values acc) of
                Inl err \<Rightarrow> Inl err
              | Inr pts \<Rightarrow> Inr (js_sort (compare_points e) pts))))"

definition processedData :: "env \<Rightarrow> props \<Rightarrow> state \<Rightarrow> error + ReportPoint list" where
  "processedData e ps st =
     (if reportMode st \<noteq> Database then Inr []
      else pipeline e (clients ps) (teamMembers ps)
             (baseData ps (dataSource st)) (dateKey (dataSource st))
             (filters st) (groupBy st) (metric st))"

section \<open>Notions used to state the properties\<close>

definition nullish :: "jsval \<Rightarrow> bool" where
  "nullish v = (v = VUndefined \<or> v = VNull)"

text \<open>The property name under which a record is filed, and whether it is filed at all.\<close>

definition key_string :: "env \<Rightarrow> string \<Rightarrow> string \<Rightarrow> item \<Rightarrow> string" where
  "key_string e gb dk i = to_string e (group_key e gb dk i)"

definition keyed :: "env \<Rightarrow> string \<Rightarrow> string \<Rightarrow> item \<Rightarrow> bool" where
  "keyed e gb dk i = (\<not> nullish (group_key e gb dk i))"

text \<open>The distinct elements of a list in the order of their first occurrence.\<close>

definition first_seen :: "'a list \<Rightarrow> 'a list" where
  "first_seen ks = fold (\<lambda>k seen. if k \<in> set seen then seen else seen @ [k]) ks []"

definition is_str :: "jsval \<Rightarrow> bool" where
  "is_str v = (case v of VStr s \<Rightarrow> True | _ \<Rightarrow> False)"

definition str_of :: "jsval \<Rightarrow> string" where
  "str_of v = (case v of VStr s \<Rightarrow> s | _ \<Rightarrow> [])"

text \<open>Consecutive elements of a list are related.\<close>

fun adjacent :: "('a \<Rightarrow> 'a \<Rightarrow> bool) \<Rightarrow> 'a list \<Rightarrow> bool" where
  "adjacent R [] = True"
| "adjacent R [x] = True"
| "adjacent R (x # y # ys) = (R x y \<and> adjacent R (y # ys))"

text \<open>The sum of a list of numbers, added from the left in the arithmetic of doubles.\<close>

definition float_sum :: "rat list \<Rightarrow> jsnum" where
  "float_sum rs = fold (\<lambda>r s. num_add s (Fin r)) rs (Fin 0)"

text \<open>The \<open>amount\<close> of a record as a number, where it is one.\<close>

definition amount_of :: "item \<Rightarrow> rat" where
  "amount_of i = (case get_prop i ''amount'' of VNum (Fin r) \<Rightarrow> r | _ \<Rightarrow> 0)"

definition value_num :: "ReportPoint \<Rightarrow> rat" where
  "value_num p = (case value p of VNum (Fin r) \<Rightarrow> r | _ \<Rightarrow> 0)"

text \<open>
  An accumulator is well filed when its property names are distinct and every bucket is
  non-empty, holds only records with a key, filed under the string of their key, and is named
  by the key of its first record.
\<close>

definition well_filed :: "env \<Rightarrow> string \<Rightarrow> string \<Rightarrow> acc \<Rightarrow> bool" where
  "well_filed e gb dk acc =
     (distinct (map fst acc)
      \<and> (\<forall>k b. (k, b) \<in> set acc \<longrightarrow>
            items b \<noteq> []
            \<and> bucket.name b = group_key e gb dk (hd (items b))
            \<and> (\<forall>i \<in> set (items b). keyed e gb dk i \<and> key_string e gb dk i = k)))"

text \<open>
  An \<open>amount\<close> that adds as a number: a finite number, or \<open>null\<close>, which converts to 0. And an
  \<open>amount\<close> that turns a numeric sum into \<open>NaN\<close>: a missing one, or \<open>NaN\<close> itself.
\<close>

definition plain_amount :: "jsval \<Rightarrow> bool" where
  "plain_amount v = (case v of VNum (Fin r) \<Rightarrow> True | VNull \<Rightarrow> True | _ \<Rightarrow> False)"

definition poison_amount :: "jsval \<Rightarrow> bool" where
  "poison_amount v = (v = VUndefined \<or> v = VNum NaN)"

section \<open>Hosts for the examples\<close>

text \<open>
  A comparison of strings by code unit stands for \<open>localeCompare\<close>, and English short month
  names for the rendering of a month. The conversions of the hosts are defined on what the
  examples convert: no example converts a string to a number or prints a fraction, and the only
  strings parsed as dates that are not date-only ISO strings are not dates at all.
\<close>

fun code_unit_compare :: "string \<Rightarrow> string \<Rightarrow> int" where
  "code_unit_compare [] [] = 0"
| "code_unit_compare [] (y # ys) = - 1"
| "code_unit_compare (x # xs) [] = 1"
| "code_unit_compare (x # xs) (y # ys) =
     (if x = y then code_unit_compare xs ys
      else if (of_char x :: nat) < of_char y then - 1 else 1)"

definition month_names :: "string list" where
  "month_names = [''Jan'', ''Feb'', ''Mar'', ''Apr'', ''May'', ''Jun'',
                  ''Jul'', ''Aug'', ''Sep'', ''Oct'', ''Nov'', ''Dec'']"

definition en_month_year :: "int \<Rightarrow> int \<Rightarrow> string" where
  "en_month_year offset t =
     (case civil_from_days ((t + offset) div msPerDay) of
        (y, m, d) \<Rightarrow> month_names ! nat (m - 1) @ '' '' @ dec_nat (nat y))"

text \<open>A host on UTC whose engine takes no string but a date-only ISO string for a date.\<close>

definition host_utc :: env where
  "host_utc =
     \<lparr> localTZA = (\<lambda>t. 0),
       parseOther = (\<lambda>s. None),
       localeCompare = code_unit_compare,
       monthYear = en_month_year 0,
       stringToNumber = (\<lambda>s. NaN),
       fracToString = (\<lambda>r. ''?'') \<rparr>"

text \<open>The same host five hours west of UTC.\<close>

definition host_west :: env where
  "host_west =
     \<lparr> localTZA = (\<lambda>t. - 18000000),
       parseOther = (\<lambda>s. None),
       localeCompare = code_unit_compare,
       monthYear = en_month_year (- 18000000),
       stringToNumber = (\<lambda>s. NaN),
       fracToString = (\<lambda>r. ''?'') \<rparr>"

text \<open>
  A host on UTC whose engine reads a date out of a string it does not know by skipping the
  words before the first number and taking a lone number for the month of the year 2001:
  \<open>NaN-NaN-02\<close> is 1 February 2001 there.
\<close>

definition host_lenient :: env where
  "host_lenient =
     \<lparr> localTZA = (\<lambda>t. 0),
       parseOther = (\<lambda>s. if s = ''NaN-NaN-02'' then Some (days_from_civil 2001 2 1 * msPerDay) else None),
       localeCompare = code_unit_compare,
       monthYear = en_month_year 0,
       stringToNumber = (\<lambda>s. NaN),
       fracToString = (\<lambda>r. ''?'') \<rparr>"

section \<open>Data for the examples\<close>

text \<open>The three records of the sample scenario, as donations.\<close>

definition donation_a :: item where
  "donation_a = [(''status'', VStr ''Open''), (''amount'', VNum (Fin 100)),
                 (''donationDate'', VStr ''2024-01-05'')]"

definition donation_b :: item where
  "donation_b = [(''status'', VStr ''Open''), (''amount'', VNum (Fin 50)),
                 (''donationDate'', VStr ''2024-02-10'')]"

definition donation_c :: item where
  "donation_c = [(''status'', VStr ''Closed''), (''amount'', VNum (Fin 200)),
                 (''donationDate'', VStr ''2024-01-20'')]"

definition sample_records :: "item list" where
  "sample_records = [donation_a, donation_b, donation_c]"

text \<open>
  Records for the edge cases: a donation without a date and without an amount, one whose
  campaign is \<open>null\<close>, one with a campaign, and two whose campaigns are numbers.
\<close>

definition undated :: item where
  "undated = [(''id'', VStr ''d4'')]"

definition no_campaign :: item where
  "no_campaign = [(''id'', VStr ''d5''), (''campaign'', VNull)]"

definition gala :: item where
  "gala = [(''id'', VStr ''d6''), (''campaign'', VStr ''Gala'')]"

definition campaign_10 :: item where
  "campaign_10 = [(''id'', VStr ''d7''), (''campaign'', VNum (Fin 10))]"

definition campaign_2 :: item where
  "campaign_2 = [(''id'', VStr ''d8''), (''campaign'', VNum (Fin 2))]"

text \<open>The filters as the component initialises them, and a selection of open records of January.\<close>

definition no_filters :: filters where
  "no_filters =
     \<lparr>dateRange = Some \<lparr>range_start = VStr '''', range_end = VStr ''''\<rparr>, otherFilters = []\<rparr>"

definition open_in_january :: filters where
  "open_in_january =
     \<lparr>dateRange = Some \<lparr>range_start = VStr ''2024-01-05'', range_end = VStr ''2024-01-31''\<rparr>,
      otherFilters = [(''status'', VStr ''Open''), (''campaign'', VStr ''all'')]\<rparr>"

text \<open>Donations of 1, of 0 and of \<open>2^53\<close>, the first integer whose successor is not a double.\<close>

definition one_unit :: item where
  "one_unit = [(''id'', VStr ''d9''), (''amount'', VNum (Fin 1))]"

definition no_units :: item where
  "no_units = [(''id'', VStr ''d10''), (''amount'', VNum (Fin 0))]"

definition two_53 :: item where
  "two_53 = [(''id'', VStr ''d11''), (''amount'', VNum (Fin 9007199254740992))]"

section \<open>The filter predicate engine\<close>

text \<open>
  The project list filters its records with \<open>applyFilterLogic(projects, activeFilter)\<close>,
  imported from \<open>./filters/filterLogic\<close>. That module is not among the sources; the engine
  is modelled from its specification.
\<close>

text \<open>
  Modelled from the spec: the operators of a \<open>FilterCondition\<close> (the source of
  \<open>./filters/filterLogic\<close> is missing); any other operator name is unknown.
\<close>

datatype operator =
    Equals | NotEquals | Contains | GreaterThan | LessThan | Before | After
  | IsEmpty | IsNotEmpty | UnknownOperator string

datatype combinator = AND | OR

text \<open>
  Modelled from the spec: a \<open>FilterGroup\<close> (the source of \<open>./filters/filterLogic\<close> is
  missing), a combinator over an ordered sequence of conditions and nested groups.
\<close>

datatype filter_node =
    Condition string operator jsval
  | Group combinator "filter_node list"

text \<open>
  Modelled from the spec: the recursive evaluation of \<open>evaluate\<close> (the source of
  \<open>./filters/filterLogic\<close> is missing). A group without children is true; \<open>AND\<close> needs
  every child, \<open>OR\<close> one child. A condition with an unknown operator matches nothing; what a
  known operator decides on the field of the record and the value is a parameter.
\<close>

fun evaluate_node :: "(operator \<Rightarrow> jsval \<Rightarrow> jsval \<Rightarrow> bool) \<Rightarrow> item \<Rightarrow> filter_node \<Rightarrow> bool" where
  "evaluate_node ops r (Condition f (UnknownOperator n) v) = False"
| "evaluate_node ops r (Condition f opr v) = ops opr (get_prop r f) v"
| "evaluate_node ops r (Group c ns) =
     (if ns = [] then True
      else (case c of
              AND \<Rightarrow> (\<forall>n \<in> set ns. evaluate_node ops r n)
            | OR \<Rightarrow> (\<exists>n \<in> set ns. evaluate_node ops r n)))"

text \<open>
  Modelled from the spec: \<open>evaluate(record, group)\<close> (the source of \<open>./filters/filterLogic\<close>
  is missing). If the group is absent, every record passes.
\<close>

definition evaluate ::
  "(operator \<Rightarrow> jsval \<Rightarrow> jsval \<Rightarrow> bool) \<Rightarrow> item \<Rightarrow> filter_node option \<Rightarrow> bool" where
  "evaluate ops r g = (case g of None \<Rightarrow> True | Some n \<Rightarrow> evaluate_node ops r n)"

text \<open>
  Modelled from the spec: \<open>applyFilterLogic(records, group)\<close> (the source of
  \<open>./filters/filterLogic\<close> is missing) keeps the records that \<open>evaluate\<close> accepts, in their
  original order, without deduplication.
\<close>

definition applyFilterLogic ::
  "(operator \<Rightarrow> jsval \<Rightarrow> jsval \<Rightarrow> bool) \<Rightarrow> item list \<Rightarrow> filter_node option \<Rightarrow> item list" where
  "applyFilterLogic ops records g = filter (\<lambda>r. evaluate ops r g) records"

section \<open>Properties of the reporting pipeline\<close>

subsection \<open>Rounding\<close>

text \<open>
  An integer of magnitude at most \<open>2^53\<close> is a double: rounding leaves it as it is. The
  evaluation of \<open>round_double\<close> takes this case first.
\<close>

lemma round_even_of_int: "round_even (of_int m) = m"
  by (simp add: round_even_def)

lemma pow2_pos: "pow2 k > 0"
  by (simp add: pow2_def)

lemma pow2_neg: "k \<le> 0 \<Longrightarrow> pow2 k = 1 / of_int (2 ^ nat (- k))"
  by (cases "k = 0") (simp_all add: pow2_def)

lemma ilog2_of_int: "m \<ge> 1 \<Longrightarrow> ilog2 (of_int m) = bitlen m - 1"
  by (simp add: ilog2_def)

lemma round_double_exact:
  assumes "r \<noteq> 0"
    and "\<bar>r\<bar> / pow2 (max (ilog2 \<bar>r\<bar> - 52) (- 1074)) = of_int m"
    and "ilog2 \<bar>r\<bar> < 1024"
  shows "round_double r = Fin r"
proof -
  let ?q = "max (ilog2 \<bar>r\<bar> - 52) (- 1074)"
  have "\<bar>r\<bar> = of_int m * pow2 ?q"
    using assms(2) pow2_pos [of ?q] by (simp add: divide_eq_eq)
  then have y: "of_int (round_even (\<bar>r\<bar> / pow2 ?q)) * pow2 ?q = \<bar>r\<bar>"
    unfolding assms(2) round_even_of_int by simp
  have "round_double r = (if ilog2 \<bar>r\<bar> \<ge> 1024 then (if r > 0 then PInf else NInf)
                          else Fin (if r > 0 then \<bar>r\<bar> else - \<bar>r\<bar>))"
    unfolding round_double_def Let_def y using assms(1) by (simp only: if_False)
  also have "\<dots> = Fin r"
    using assms(3) by (simp add: abs_if)
  finally show ?thesis .
qed

lemma round_double_int:
  assumes "\<bar>k\<bar> \<le> 9007199254740992"
  shows "round_double (of_int k) = Fin (of_int k)"
proof (cases "k = 0")
  case True
  then show ?thesis by (simp add: round_double_def)
next
  case False
  define a where "a = \<bar>k\<bar>"
  have a1: "a \<ge> 1" and a53: "a \<le> 2 ^ 53" using False assms by (simp_all add: a_def)
  define e where "e = bitlen a - 1"
  have bl: "2 ^ nat e \<le> a" "a < 2 ^ nat (bitlen a)"
    using bitlen_bounds [of a] a1 by (simp_all add: e_def)
  have "bitlen a \<noteq> 0"
    using bitlen_eq_zero_iff [of a] a1 by simp
  then have e0: "e \<ge> 0"
    using bitlen_nonneg [of a] by (simp add: e_def)
  have "nat e \<le> 53"
  proof (rule ccontr)
    assume "\<not> nat e \<le> 53"
    then have "54 \<le> nat e" by simp
    then have "(2::int) ^ 54 \<le> 2 ^ nat e" by (intro power_increasing) simp_all
    then show False using bl(1) a53 by simp
  qed
  then have e53: "e \<le> 53" using e0 by linarith
  have abs: "\<bar>of_int k :: rat\<bar> = of_int a" by (simp add: a_def)
  have il: "ilog2 \<bar>of_int k :: rat\<bar> = e"
    unfolding abs using a1 by (simp add: ilog2_of_int e_def)
  have q: "max (ilog2 \<bar>of_int k :: rat\<bar> - 52) (- 1074) = e - 52"
    unfolding il using e0 by simp
  have lt: "ilog2 \<bar>of_int k :: rat\<bar> < 1024"
    unfolding il using e53 by simp
  have "\<exists>m. \<bar>of_int k :: rat\<bar> / pow2 (e - 52) = of_int m"
  proof (cases "e \<le> 52")
    case True
    then have "pow2 (e - 52) = 1 / of_int (2 ^ nat (52 - e))"
      using pow2_neg [of "e - 52"] by simp
    then have "\<bar>of_int k :: rat\<bar> / pow2 (e - 52) = of_int (a * 2 ^ nat (52 - e))"
      unfolding abs by simp
    then show ?thesis by blast
  next
    case False
    then have e: "e = 53" using e53 by linarith
    then have "(2::int) ^ 53 \<le> a" using bl(1) by simp
    then have a: "a = 2 ^ 53" using a53 by linarith
    have "\<bar>of_int k :: rat\<bar> / pow2 (e - 52) = of_int (2 ^ 52)"
      unfolding abs a e by (simp add: pow2_def)
    then show ?thesis by blast
  qed
  then obtain m where "\<bar>of_int k :: rat\<bar> / pow2 (max (ilog2 \<bar>of_int k :: rat\<bar> - 52) (- 1074)) = of_int m"
    unfolding q by blast
  then show ?thesis
    using round_double_exact [of "of_int k" m] False lt by simp
qed

lemma round_double_integer:
  "is_integer r \<Longrightarrow> \<bar>r\<bar> \<le> 9007199254740992 \<Longrightarrow> round_double r = Fin r"
proof -
  assume i: "is_integer r" and b: "\<bar>r\<bar> \<le> 9007199254740992"
  from i have r: "r = of_int \<lfloor>r\<rfloor>" unfolding is_integer_def by (rule sym)
  have "\<bar>of_int \<lfloor>r\<rfloor> :: rat\<bar> \<le> 9007199254740992" using b r by simp
  then have "\<bar>\<lfloor>r\<rfloor>\<bar> \<le> 9007199254740992"
    by (metis of_int_abs of_int_le_iff of_int_numeral)
  from round_double_int [OF this] show ?thesis using r by simp
qed

lemma round_double_code [code]:
  "round_double r =
     (if is_integer r \<and> \<bar>r\<bar> \<le> 9007199254740992 then Fin r
      else if r = 0 then Fin 0
      else
        (let a = \<bar>r\<bar>;
             q = max (ilog2 a - 52) (- 1074);
             y = of_int (round_even (a / pow2 q)) * pow2 q
         in if ilog2 y \<ge> 1024 then (if r > 0 then PInf else NInf)
            else Fin (if r > 0 then y else - y)))"
  using round_double_integer [of r] by (auto simp: round_double_def)

text \<open>
  Rounding at work: a tenth is not a double; above \<open>2^53\<close> odd integers are not doubles, and a
  tie goes to the even significand; the sum of the doubles nearest to 0.1 and 0.2 is not the
  double nearest to 0.3; a third is rounded.
\<close>

lemma round_double_examples:
  "round_double (1 / 10) = Fin (3602879701896397 / 36028797018963968)"
  "round_double 9007199254740993 = Fin 9007199254740992"
  "round_double 9007199254740995 = Fin 9007199254740996"
  "num_add (Fin (3602879701896397 / 36028797018963968)) (Fin (3602879701896397 / 18014398509481984))
     = Fin (1351079888211149 / 4503599627370496)"
  "num_div (Fin 1) (Fin 3) = Fin (6004799503160661 / 18014398509481984)"
  by code_simp+

subsection \<open>The filter stage\<close>

lemmas date_eval =
  new_Date_def date_parse_def parse_iso_date_def iso_fields_def digit_val_def
  days_in_month_def is_leap_def days_from_civil_def msPerDay_def time_clip_def
  date_ge_def date_le_def

lemma fold_conj:
  "fold (\<lambda>(key, v) p. if c key v then p \<and> q key v else p) fs p0
   = (p0 \<and> (\<forall>(key, v) \<in> set fs. c key v \<longrightarrow> q key v))"
  by (induction fs arbitrary: p0) auto

lemma passes_iff:
  "dk \<noteq> [] \<Longrightarrow>
   passes e dk fs item =
     ((truthy (start_of fs) \<longrightarrow> date_ge (new_Date e (get_prop item dk)) (new_Date e (start_of fs)))
    \<and> (truthy (end_of fs) \<longrightarrow> date_le (new_Date e (get_prop item dk)) (new_Date e (end_of fs)))
    \<and> (\<forall>(key, v) \<in> set (otherFilters fs).
          truthy v \<and> \<not> strict_eq v (VStr ''all'') \<longrightarrow> strict_eq (get_prop item key) v))"
  unfolding passes_def Let_def fold_conj by auto

lemma dateKey_nonempty: "dateKey src \<noteq> []"
  by (cases src) (simp_all add: dateKey_def)

text \<open>
  Claim C1. The filter stage keeps the records, in their order, that satisfy all of: when the
  start of the date range is set (truthy), the date of the record is a valid instant at or
  after the start; when the end is set, it is a valid instant at or before the end; and for
  each other filter entry whose value is set and is not \<open>'all'\<close>, the field of the record is
  \<open>===\<close> to the value. When neither bound is set and every entry is unset or \<open>'all'\<close>, all
  records are kept.
\<close>

theorem filter_stage_keeps:
  "filteredData e (dateKey src) fs base =
     filter (\<lambda>item.
         (truthy (start_of fs) \<longrightarrow>
            date_ge (new_Date e (get_prop item (dateKey src))) (new_Date e (start_of fs)))
       \<and> (truthy (end_of fs) \<longrightarrow>
            date_le (new_Date e (get_prop item (dateKey src))) (new_Date e (end_of fs)))
       \<and> (\<forall>(key, v) \<in> set (otherFilters fs).
            truthy v \<and> \<not> strict_eq v (VStr ''all'') \<longrightarrow> strict_eq (get_prop item key) v)) base
   \<and> (\<not> truthy (start_of fs) \<and> \<not> truthy (end_of fs)
        \<and> (\<forall>(key, v) \<in> set (otherFilters fs). \<not> truthy v \<or> strict_eq v (VStr ''all''))
      \<longrightarrow> filteredData e (dateKey src) fs base = base)"
proof -
  have eq: "passes e (dateKey src) fs = (\<lambda>item.
         (truthy (start_of fs) \<longrightarrow>
            date_ge (new_Date e (get_prop item (dateKey src))) (new_Date e (start_of fs)))
       \<and> (truthy (end_of fs) \<longrightarrow>
            date_le (new_Date e (get_prop item (dateKey src))) (new_Date e (end_of fs)))
       \<and> (\<forall>(key, v) \<in> set (otherFilters fs).
            truthy v \<and> \<not> strict_eq v (VStr ''all'') \<longrightarrow> strict_eq (get_prop item key) v))"
    by (rule ext) (rule passes_iff [OF dateKey_nonempty])
  have first: "filteredData e (dateKey src) fs base = filter (passes e (dateKey src) fs) base"
    by (simp add: filteredData_def)
  have second: "\<not> truthy (start_of fs) \<and> \<not> truthy (end_of fs)
        \<and> (\<forall>(key, v) \<in> set (otherFilters fs). \<not> truthy v \<or> strict_eq v (VStr ''all''))
      \<longrightarrow> filteredData e (dateKey src) fs base = base"
    unfolding first eq by (auto intro!: filter_True)
  show ?thesis using first second unfolding eq by blast
qed

theorem filter_stage_keeps_witness:
  "filteredData host_utc (dateKey Donations) open_in_january sample_records = [donation_a]
   \<and> \<not> truthy (start_of no_filters) \<and> \<not> truthy (end_of no_filters)
   \<and> strict_eq (VStr ''all'') (VStr ''all'')
   \<and> filteredData host_utc (dateKey Donations)
        (no_filters\<lparr>otherFilters := [(''status'', VStr ''all'')]\<rparr>) sample_records
      = sample_records"
  using filter_stage_keeps [of host_utc Donations open_in_january sample_records]
        filter_stage_keeps [of host_utc Donations
          "no_filters\<lparr>otherFilters := [(''status'', VStr ''all'')]\<rparr>" sample_records]
  by (simp add: date_eval host_utc_def sample_records_def open_in_january_def no_filters_def
        donation_a_def donation_b_def donation_c_def
        start_of_def end_of_def dateKey_def get_prop_def)

subsection \<open>No grouping, no data\<close>

text \<open>
  Claim C4. Whatever the collections and the filters, a computation without a \<open>groupBy\<close>
  (the empty string, the only falsy string) returns the empty list; it does not throw.
\<close>

theorem no_groupBy_empty:
  "groupBy st = [] \<Longrightarrow> processedData e ps st = Inr []"
  by (simp add: processedData_def pipeline_def)

theorem no_groupBy_empty_witness:
  "groupBy \<lparr>reportMode = Database, dataSource = Donations,
      filters = \<lparr>dateRange = Some \<lparr>range_start = VStr '''', range_end = VStr ''''\<rparr>,
                 otherFilters = []\<rparr>,
      groupBy = '''', metric = ''totalAmount''\<rparr> = []
   \<and> processedData host_utc
       \<lparr>projects = [], clients = [],
        donations = [[(''id'', VStr ''d1''), (''amount'', VNum (Fin 100)),
                      (''donationDate'', VStr ''2024-01-05'')]],
        activities = [], cases = [], teamMembers = []\<rparr>
       \<lparr>reportMode = Database, dataSource = Donations,
        filters = \<lparr>dateRange = Some \<lparr>range_start = VStr '''', range_end = VStr ''''\<rparr>,
                   otherFilters = []\<rparr>,
        groupBy = '''', metric = ''totalAmount''\<rparr> = Inr []"
  using no_groupBy_empty [of "\<lparr>reportMode = Database, dataSource = Donations,
      filters = \<lparr>dateRange = Some \<lparr>range_start = VStr '''', range_end = VStr ''''\<rparr>,
                 otherFilters = []\<rparr>,
      groupBy = '''', metric = ''totalAmount''\<rparr>" host_utc]
  by simp

subsection \<open>The group stage\<close>

lemma strict_eq_nullish:
  "(strict_eq v VUndefined \<or> strict_eq v VNull) = nullish v"
  by (cases v) (auto simp: nullish_def)

lemma group_step_unkeyed:
  "\<not> keyed e gb dk i \<Longrightarrow> group_step e gb dk acc i = Inr acc"
  by (simp add: group_step_def keyed_def strict_eq_nullish Let_def)

lemma group_step_keyed:
  "keyed e gb dk i \<Longrightarrow>
   group_step e gb dk acc i =
     (case map_of acc (key_string e gb dk i) of
        Some b \<Rightarrow> Inr (push_item (key_string e gb dk i) i acc)
      | None \<Rightarrow>
          if key_string e gb dk i \<in> set protoKeys then Inl TypeError
          else Inr (acc @ [(key_string e gb dk i, \<lparr>bucket.name = group_key e gb dk i, items = [i]\<rparr>)]))"
  unfolding group_step_def keyed_def key_string_def Let_def strict_eq_nullish
  by (simp split: option.splits)

lemma map_fst_push_item [simp]: "map fst (push_item k i acc) = map fst acc"
  by (induction acc) (auto simp: push_item_def)

lemma push_item_Nil [simp]: "push_item k i [] = []"
  by (simp add: push_item_def)

lemma push_item_Cons [simp]:
  "push_item k i ((k', b) # acc) =
     (k', if k' = k then b\<lparr>items := items b @ [i]\<rparr> else b) # push_item k i acc"
  by (simp add: push_item_def)

lemma in_push_item:
  "(k', b') \<in> set (push_item k i acc) \<Longrightarrow>
     \<exists>b. (k', b) \<in> set acc \<and> b' = (if k' = k then b\<lparr>items := items b @ [i]\<rparr> else b)"
proof (induction acc)
  case Nil
  then show ?case by simp
next
  case (Cons p acc)
  obtain k0 b0 where p: "p = (k0, b0)" by (cases p)
  from Cons.prems have "(k', b') = (k0, if k0 = k then b0\<lparr>items := items b0 @ [i]\<rparr> else b0)
      \<or> (k', b') \<in> set (push_item k i acc)"
    by (simp add: p)
  then show ?case
  proof
    assume "(k', b') = (k0, if k0 = k then b0\<lparr>items := items b0 @ [i]\<rparr> else b0)"
    then have "(k', b0) \<in> set (p # acc) \<and> b' = (if k' = k then b0\<lparr>items := items b0 @ [i]\<rparr> else b0)"
      by (simp add: p)
    then show ?thesis by blast
  next
    assume "(k', b') \<in> set (push_item k i acc)"
    from Cons.IH [OF this] show ?thesis by auto
  qed
qed

lemma grouped_drop_unkeyed:
  "grouped e gb dk acc (filter (keyed e gb dk) xs) = grouped e gb dk acc xs"
proof (induction xs arbitrary: acc)
  case Nil
  show ?case by simp
next
  case (Cons x xs)
  show ?case
  proof (cases "keyed e gb dk x")
    case True
    then show ?thesis using Cons.IH by (simp split: sum.splits)
  next
    case False
    then show ?thesis using Cons.IH by (simp add: group_step_unkeyed)
  qed
qed

text \<open>An invariant of the accumulator that every step keeps holds of the result.\<close>

lemma grouped_invariant:
  assumes "grouped e gb dk acc xs = Inr acc'"
    and "I acc"
    and "\<And>a i a'. I a \<Longrightarrow> group_step e gb dk a i = Inr a' \<Longrightarrow> I a'"
  shows "I acc'"
  using assms(1,2)
proof (induction xs arbitrary: acc)
  case Nil
  then show ?case by simp
next
  case (Cons x xs)
  then show ?case
    by (auto split: sum.splits intro: assms(3))
qed

lemma well_filed_step:
  assumes "well_filed e gb dk a" and "group_step e gb dk a i = Inr a'"
  shows "well_filed e gb dk a'"
proof (cases "keyed e gb dk i")
  case False
  then show ?thesis using assms by (simp add: group_step_unkeyed)
next
  case True
  show ?thesis
  proof (cases "map_of a (key_string e gb dk i)")
    case None
    then have "key_string e gb dk i \<notin> fst ` set a"
      by (simp add: map_of_eq_None_iff)
    then show ?thesis
      using assms True None
      by (fastforce simp: group_step_keyed well_filed_def split: if_splits)
  next
    case (Some b)
    then have a': "a' = push_item (key_string e gb dk i) i a"
      using assms True by (simp add: group_step_keyed)
    have d: "distinct (map fst a')"
      using assms(1) by (simp add: a' well_filed_def)
    have "items b' \<noteq> [] \<and> bucket.name b' = group_key e gb dk (hd (items b'))
        \<and> (\<forall>j \<in> set (items b'). keyed e gb dk j \<and> key_string e gb dk j = k')"
      if "(k', b') \<in> set a'" for k' b'
    proof -
      from that obtain b0 where b0: "(k', b0) \<in> set a"
        and b': "b' = (if k' = key_string e gb dk i then b0\<lparr>items := items b0 @ [i]\<rparr> else b0)"
        unfolding a' by (blast dest: in_push_item)
      have old: "items b0 \<noteq> [] \<and> bucket.name b0 = group_key e gb dk (hd (items b0))
          \<and> (\<forall>j \<in> set (items b0). keyed e gb dk j \<and> key_string e gb dk j = k')"
        using assms(1) b0 unfolding well_filed_def by blast
      show ?thesis
        using old True by (auto simp: b')
    qed
    then show ?thesis
      using d unfolding well_filed_def by blast
  qed
qed

lemma well_filed_grouped:
  "grouped e gb dk [] xs = Inr acc \<Longrightarrow> well_filed e gb dk acc"
proof (erule grouped_invariant)
  show "well_filed e gb dk []" by (simp add: well_filed_def)
next
  fix a i a'
  assume "well_filed e gb dk a" "group_step e gb dk a i = Inr a'"
  then show "well_filed e gb dk a'" by (rule well_filed_step)
qed

lemma filteredData_filter:
  "filteredData e dk fs (filter P base) = filter P (filteredData e dk fs base)"
  by (auto simp: filteredData_def intro: filter_cong)

lemma grouped_filteredData_keyed:
  "grouped e gb dk [] (filteredData e dk fs (filter (keyed e gb dk) base))
   = grouped e gb dk [] (filteredData e dk fs base)"
  by (simp add: filteredData_filter grouped_drop_unkeyed)

lemma set_object_values: "set (object_values acc) = snd ` set acc"
  by (auto simp: object_values_def)

lemma mset_object_values: "mset (object_values acc) = mset (map snd acc)"
proof -
  have "mset (filter (\<lambda>(k, b). is_array_index k) acc) + mset (filter (\<lambda>(k, b). \<not> is_array_index k) acc)
        = mset acc"
    by (induction acc) auto
  then have "mset (sort_key (\<lambda>(k, b). index_of k) (filter (\<lambda>(k, b). is_array_index k) acc)
                   @ filter (\<lambda>(k, b). \<not> is_array_index k) acc) = mset acc"
    by simp
  then show ?thesis
    unfolding object_values_def by (metis mset_map)
qed

text \<open>
  Claim C6. A record whose group key is \<open>undefined\<close> or \<open>null\<close> is dropped by the group stage:
  the report of a collection is the report of the collection without these records, so that
  they contribute to no point and no bucket is made for them; and no bucket of the accumulator
  holds such a record.
\<close>

theorem null_keys_dropped:
  "pipeline e cls tms base dk fs gb m
     = pipeline e cls tms (filter (\<lambda>i. \<not> nullish (group_key e gb dk i)) base) dk fs gb m
   \<and> (grouped e gb dk [] (filteredData e dk fs base) = Inr acc \<longrightarrow>
        (\<forall>(k, b) \<in> set acc. \<forall>i \<in> set (items b). \<not> nullish (group_key e gb dk i)))"
proof
  have "(\<lambda>i. \<not> nullish (group_key e gb dk i)) = keyed e gb dk"
    by (rule ext) (simp add: keyed_def)
  then show "pipeline e cls tms base dk fs gb m
     = pipeline e cls tms (filter (\<lambda>i. \<not> nullish (group_key e gb dk i)) base) dk fs gb m"
    by (simp add: pipeline_def grouped_filteredData_keyed)
next
  show "grouped e gb dk [] (filteredData e dk fs base) = Inr acc \<longrightarrow>
        (\<forall>(k, b) \<in> set acc. \<forall>i \<in> set (items b). \<not> nullish (group_key e gb dk i))"
  proof
    assume "grouped e gb dk [] (filteredData e dk fs base) = Inr acc"
    then have "well_filed e gb dk acc" by (rule well_filed_grouped)
    then show "\<forall>(k, b) \<in> set acc. \<forall>i \<in> set (items b). \<not> nullish (group_key e gb dk i)"
      unfolding well_filed_def keyed_def by blast
  qed
qed

theorem null_keys_dropped_witness:
  "filter (\<lambda>i. \<not> nullish (group_key host_utc ''campaign'' ''donationDate'' i))
      [undated, gala, no_campaign] = [gala]
   \<and> pipeline host_utc [] [] [undated, gala, no_campaign] ''donationDate'' no_filters
        ''campaign'' ''count''
       = pipeline host_utc [] [] [gala] ''donationDate'' no_filters ''campaign'' ''count''
   \<and> grouped host_utc ''campaign'' ''donationDate'' []
        (filteredData host_utc ''donationDate'' no_filters [undated, gala, no_campaign])
       = Inr [(''Gala'', \<lparr>bucket.name = VStr ''Gala'', items = [gala]\<rparr>)]
   \<and> \<not> nullish (group_key host_utc ''campaign'' ''donationDate'' gala)"
proof -
  have f: "filter (\<lambda>i. \<not> nullish (group_key host_utc ''campaign'' ''donationDate'' i))
      [undated, gala, no_campaign] = [gala]"
    by code_simp
  have acc: "grouped host_utc ''campaign'' ''donationDate'' []
        (filteredData host_utc ''donationDate'' no_filters [undated, gala, no_campaign])
       = Inr [(''Gala'', \<lparr>bucket.name = VStr ''Gala'', items = [gala]\<rparr>)]"
    by code_simp
  note t = null_keys_dropped [of host_utc "[]" "[]" "[undated, gala, no_campaign]" "''donationDate''"
      no_filters "''campaign''" "''count''" "[(''Gala'', \<lparr>bucket.name = VStr ''Gala'', items = [gala]\<rparr>)]"]
  show ?thesis using t f acc by simp
qed

subsection \<open>The amount metrics\<close>

lemma is_integer_add: "is_integer a \<Longrightarrow> is_integer b \<Longrightarrow> is_integer (a + b)"
proof -
  assume "is_integer a" "is_integer b"
  then have "a + b = of_int (\<lfloor>a\<rfloor> + \<lfloor>b\<rfloor>)"
    unfolding is_integer_def by (metis of_int_add)
  then have "of_int \<lfloor>a + b\<rfloor> = a + b"
    by (metis floor_of_int)
  then show ?thesis by (simp only: is_integer_def)
qed

lemma float_fold_exact:
  "\<forall>r \<in> set rs. is_integer r \<Longrightarrow> is_integer s \<Longrightarrow>
   \<bar>s\<bar> + sum_list (map abs rs) \<le> 9007199254740992 \<Longrightarrow>
   fold (\<lambda>r s. num_add s (Fin r)) rs (Fin s) = Fin (s + sum_list rs)"
proof (induction rs arbitrary: s)
  case Nil
  show ?case by simp
next
  case (Cons r rs)
  have int: "is_integer (s + r)"
    using Cons.prems(1,2) by (simp add: is_integer_add)
  have "\<bar>s + r\<bar> \<le> \<bar>s\<bar> + \<bar>r\<bar>" by (rule abs_triangle_ineq)
  moreover have "0 \<le> sum_list (map abs rs)" by (induction rs) auto
  ultimately have b: "\<bar>s + r\<bar> \<le> 9007199254740992"
    and b': "\<bar>s + r\<bar> + sum_list (map abs rs) \<le> 9007199254740992"
    using Cons.prems(3) by simp_all
  have step: "round_double (s + r) = Fin (s + r)"
    using int b by (rule round_double_integer)
  show ?case
    using Cons.IH [OF _ int b'] Cons.prems(1) by (simp add: step add.assoc)
qed

lemma float_sum_exact:
  "\<forall>r \<in> set rs. is_integer r \<Longrightarrow> sum_list (map abs rs) \<le> 9007199254740992 \<Longrightarrow>
   float_sum rs = Fin (sum_list rs)"
  using float_fold_exact [of rs 0] by (simp add: float_sum_def is_integer_def)

lemma js_add_plain:
  "plain_amount v \<Longrightarrow>
   js_add e (VNum s) v = VNum (num_add s (Fin (case v of VNum (Fin r) \<Rightarrow> r | _ \<Rightarrow> 0)))"
  by (cases v) (auto simp: plain_amount_def js_add_def split: jsnum.splits)

lemma fold_amount_plain:
  "\<forall>i \<in> set its. plain_amount (get_prop i ''amount'') \<Longrightarrow>
   fold (\<lambda>i acc. js_add e acc (get_prop i ''amount'')) its (VNum s)
     = VNum (fold (\<lambda>r s. num_add s (Fin r)) (map amount_of its) s)"
proof (induction its arbitrary: s)
  case Nil
  show ?case by simp
next
  case (Cons i its)
  have "js_add e (VNum s) (get_prop i ''amount'') = VNum (num_add s (Fin (amount_of i)))"
    using Cons.prems by (simp add: js_add_plain amount_of_def)
  then show ?case
    using Cons.IH [of "num_add s (Fin (amount_of i))"] Cons.prems by simp
qed

lemma sum_amount_plain:
  "\<forall>i \<in> set its. plain_amount (get_prop i ''amount'') \<Longrightarrow>
   sum_amount e its = VNum (float_sum (map amount_of its))"
  by (simp add: sum_amount_def float_sum_def fold_amount_plain)

lemma finite_amount_plain:
  "\<exists>r. v = VNum (Fin r) \<Longrightarrow> plain_amount v"
  by (auto simp: plain_amount_def)

lemma js_add_nan:
  "plain_amount v \<or> poison_amount v \<Longrightarrow> js_add e (VNum NaN) v = VNum NaN"
  by (cases v) (auto simp: plain_amount_def poison_amount_def js_add_def split: jsnum.splits)

lemma js_add_poison:
  "poison_amount v \<Longrightarrow> js_add e (VNum n) v = VNum NaN"
  by (cases n) (auto simp: poison_amount_def js_add_def)

lemma js_add_num:
  "plain_amount v \<or> poison_amount v \<Longrightarrow> \<exists>n'. js_add e (VNum n) v = VNum n'"
  by (cases v) (auto simp: plain_amount_def poison_amount_def js_add_def split: jsnum.splits)

lemma fold_amount_nan:
  "\<forall>i \<in> set its. plain_amount (get_prop i ''amount'') \<or> poison_amount (get_prop i ''amount'') \<Longrightarrow>
   fold (\<lambda>i acc. js_add e acc (get_prop i ''amount'')) its (VNum NaN) = VNum NaN"
  by (induction its) (simp_all add: js_add_nan)

lemma fold_amount_poisoned:
  "\<forall>i \<in> set its. plain_amount (get_prop i ''amount'') \<or> poison_amount (get_prop i ''amount'') \<Longrightarrow>
   \<exists>i \<in> set its. poison_amount (get_prop i ''amount'') \<Longrightarrow>
   fold (\<lambda>i acc. js_add e acc (get_prop i ''amount'')) its (VNum n) = VNum NaN"
proof (induction its arbitrary: n)
  case Nil
  then show ?case by simp
next
  case (Cons i its)
  show ?case
  proof (cases "poison_amount (get_prop i ''amount'')")
    case True
    then show ?thesis using Cons.prems(1) by (simp add: js_add_poison fold_amount_nan)
  next
    case False
    then have ex: "\<exists>i \<in> set its. poison_amount (get_prop i ''amount'')"
      using Cons.prems(2) by auto
    obtain n' where "js_add e (VNum n) (get_prop i ''amount'') = VNum n'"
      using js_add_num [of "get_prop i ''amount''" e n] Cons.prems(1) by auto
    then show ?thesis
      using Cons.IH [OF _ ex, of n'] Cons.prems(1) by simp
  qed
qed

lemma num_div_nan: "num_div NaN n = NaN"
  by (cases n) simp_all

text \<open>
  Claim C3, as amended. The metrics \<open>totalAmount\<close> and \<open>avgAmount\<close> never throw. A record whose
  \<open>amount\<close> is \<open>null\<close> is added as 0: over amounts that are finite numbers or \<open>null\<close>, the total
  is the sum, in the arithmetic of doubles, of the numbers and a 0 for each \<open>null\<close>, and the
  average that sum over the number of records; when the numbers are integers whose magnitudes
  add up to at most \<open>2^53\<close> the total is their exact sum. A missing \<open>amount\<close> is not guarded: in
  a bucket whose amounts are finite numbers, \<open>null\<close> or missing, a single missing (or \<open>NaN\<close>)
  amount makes both metrics \<open>NaN\<close>.
\<close>

theorem amount_metrics:
  "(m = ''totalAmount'' \<or> m = ''avgAmount'' \<longrightarrow> (\<exists>v. metric_value e m its = Inr v))
   \<and> ((\<forall>i \<in> set its. plain_amount (get_prop i ''amount'')) \<longrightarrow>
        metric_value e ''totalAmount'' its = Inr (VNum (float_sum (map amount_of its)))
        \<and> (its \<noteq> [] \<longrightarrow> metric_value e ''avgAmount'' its
              = Inr (VNum (num_div (float_sum (map amount_of its)) (Fin (of_nat (length its)))))))
   \<and> ((\<forall>i \<in> set its. plain_amount (get_prop i ''amount'') \<and> is_integer (amount_of i))
        \<and> sum_list (map (\<lambda>i. \<bar>amount_of i\<bar>) its) \<le> 9007199254740992 \<longrightarrow>
        metric_value e ''totalAmount'' its = Inr (VNum (Fin (sum_list (map amount_of its)))))
   \<and> ((\<forall>i \<in> set its. plain_amount (get_prop i ''amount'') \<or> poison_amount (get_prop i ''amount''))
        \<and> (\<exists>i \<in> set its. poison_amount (get_prop i ''amount'')) \<longrightarrow>
        metric_value e ''totalAmount'' its = Inr (VNum NaN)
        \<and> metric_value e ''avgAmount'' its = Inr (VNum NaN))"
proof (intro conjI impI)
  assume "m = ''totalAmount'' \<or> m = ''avgAmount''"
  then show "\<exists>v. metric_value e m its = Inr v"
    by (auto simp: metric_value_def)
next
  assume "\<forall>i \<in> set its. plain_amount (get_prop i ''amount'')"
  then show "metric_value e ''totalAmount'' its = Inr (VNum (float_sum (map amount_of its)))"
    by (simp add: metric_value_def sum_amount_plain)
next
  assume "\<forall>i \<in> set its. plain_amount (get_prop i ''amount'')" and "its \<noteq> []"
  then show "metric_value e ''avgAmount'' its
              = Inr (VNum (num_div (float_sum (map amount_of its)) (Fin (of_nat (length its)))))"
    by (simp add: metric_value_def sum_amount_plain js_div_def count_of_def)
next
  assume a: "(\<forall>i \<in> set its. plain_amount (get_prop i ''amount'') \<and> is_integer (amount_of i))
        \<and> sum_list (map (\<lambda>i. \<bar>amount_of i\<bar>) its) \<le> 9007199254740992"
  then have "float_sum (map amount_of its) = Fin (sum_list (map amount_of its))"
    by (intro float_sum_exact) (simp_all add: o_def)
  then show "metric_value e ''totalAmount'' its = Inr (VNum (Fin (sum_list (map amount_of its))))"
    using a by (simp add: metric_value_def sum_amount_plain)
next
  assume a: "(\<forall>i \<in> set its. plain_amount (get_prop i ''amount'') \<or> poison_amount (get_prop i ''amount''))
        \<and> (\<exists>i \<in> set its. poison_amount (get_prop i ''amount''))"
  then show "metric_value e ''totalAmount'' its = Inr (VNum NaN)"
    using fold_amount_poisoned [of its e "Fin 0"] by (simp add: metric_value_def sum_amount_def)
next
  assume a: "(\<forall>i \<in> set its. plain_amount (get_prop i ''amount'') \<or> poison_amount (get_prop i ''amount''))
        \<and> (\<exists>i \<in> set its. poison_amount (get_prop i ''amount''))"
  then have "its \<noteq> []" by auto
  then show "metric_value e ''avgAmount'' its = Inr (VNum NaN)"
    using a fold_amount_poisoned [of its e "Fin 0"]
    by (simp add: metric_value_def sum_amount_def js_div_def count_of_def num_div_nan)
qed

theorem amount_metrics_witness:
  "(\<exists>v. metric_value host_utc ''totalAmount'' [donation_a, undated] = Inr v)
   \<and> plain_amount (get_prop donation_a ''amount'')
   \<and> plain_amount (get_prop [(''amount'', VNull)] ''amount'')
   \<and> is_integer (amount_of donation_a) \<and> is_integer (amount_of [(''amount'', VNull)])
   \<and> metric_value host_utc ''totalAmount'' [donation_a, [(''amount'', VNull)]] = Inr (VNum (Fin 100))
   \<and> metric_value host_utc ''avgAmount'' [donation_a, [(''amount'', VNull)]] = Inr (VNum (Fin 50))
   \<and> poison_amount (get_prop undated ''amount'')
   \<and> metric_value host_utc ''totalAmount'' [donation_a, undated] = Inr (VNum NaN)
   \<and> metric_value host_utc ''avgAmount'' [donation_a, undated] = Inr (VNum NaN)"
proof -
  let ?its = "[donation_a, [(''amount'', VNull)]]"
  have plain: "\<forall>i \<in> set ?its. plain_amount (get_prop i ''amount'')"
    by code_simp
  have ints: "\<forall>i \<in> set ?its. plain_amount (get_prop i ''amount'') \<and> is_integer (amount_of i)"
    by code_simp
  have bound: "sum_list (map (\<lambda>i. \<bar>amount_of i\<bar>) ?its) \<le> 9007199254740992"
    by code_simp
  have mixed: "\<forall>i \<in> set [donation_a, undated].
         plain_amount (get_prop i ''amount'') \<or> poison_amount (get_prop i ''amount'')"
    by code_simp
  have poison: "\<exists>i \<in> set [donation_a, undated]. poison_amount (get_prop i ''amount'')"
    by code_simp
  have total: "sum_list (map amount_of ?its) = 100"
    by code_simp
  have avg: "num_div (float_sum (map amount_of ?its)) (Fin (of_nat (length ?its))) = Fin 50"
    by code_simp
  note a = amount_metrics [of "''totalAmount''" host_utc ?its]
  note b = amount_metrics [of "''totalAmount''" host_utc "[donation_a, undated]"]
  have 1: "metric_value host_utc ''totalAmount'' ?its = Inr (VNum (Fin 100))"
    using a ints bound unfolding total by blast
  have 2: "metric_value host_utc ''avgAmount'' ?its = Inr (VNum (Fin 50))"
    using a plain unfolding avg by auto
  have 3: "\<exists>v. metric_value host_utc ''totalAmount'' [donation_a, undated] = Inr v"
    using b by blast
  have 4: "metric_value host_utc ''totalAmount'' [donation_a, undated] = Inr (VNum NaN)
      \<and> metric_value host_utc ''avgAmount'' [donation_a, undated] = Inr (VNum NaN)"
    using b mixed poison by blast
  have 5: "plain_amount (get_prop donation_a ''amount'')"
    "plain_amount (get_prop [(''amount'', VNull)] ''amount'')"
    "poison_amount (get_prop undated ''amount'')"
    "is_integer (amount_of donation_a)" "is_integer (amount_of [(''amount'', VNull)])"
    by code_simp+
  show ?thesis using 1 2 3 4 5 by blast
qed

theorem amount_missing_counterexample:
  "metric_value host_utc ''totalAmount''
     [[(''id'', VStr ''d1''), (''amount'', VNum (Fin 100))], [(''id'', VStr ''d2'')]] = Inr (VNum NaN)
   \<and> metric_value host_utc ''avgAmount''
     [[(''id'', VStr ''d1''), (''amount'', VNum (Fin 100))], [(''id'', VStr ''d2'')]] = Inr (VNum NaN)"
  by code_simp

subsection \<open>The average\<close>

lemma avg_finite:
  assumes "\<forall>i \<in> set its. \<exists>r. get_prop i ''amount'' = VNum (Fin r)"
  shows "metric_value e ''avgAmount'' its
           = Inr (VNum (if its = [] then Fin 0
                        else num_div (float_sum (map amount_of its))
                                     (Fin (of_nat (length its)))))"
proof -
  have "\<forall>i \<in> set its. plain_amount (get_prop i ''amount'')"
    using assms by (auto intro: finite_amount_plain)
  then show ?thesis
    by (simp add: metric_value_def sum_amount_plain js_div_def count_of_def)
qed

lemma avg_exact:
  assumes "\<forall>i \<in> set its. \<exists>r. get_prop i ''amount'' = VNum (Fin r) \<and> is_integer r"
    and "sum_list (map (\<lambda>i. \<bar>amount_of i\<bar>) its) \<le> 9007199254740992"
    and "its \<noteq> []"
  shows "metric_value e ''avgAmount'' its
           = Inr (VNum (round_double (sum_list (map amount_of its) / of_nat (length its))))"
proof -
  have fin: "\<forall>i \<in> set its. \<exists>r. get_prop i ''amount'' = VNum (Fin r)"
    using assms(1) by blast
  have "\<forall>i \<in> set its. is_integer (amount_of i)"
    using assms(1) by (auto simp: amount_of_def)
  then have "float_sum (map amount_of its) = Fin (sum_list (map amount_of its))"
    using assms(2) by (intro float_sum_exact) (simp_all add: o_def)
  then show ?thesis
    using avg_finite [OF fin, of e] assms(3) by simp
qed

text \<open>
  Claim C5, as amended. On a bucket whose records have finite numbers for \<open>amount\<close>, the metric
  \<open>avgAmount\<close> is 0 for the empty bucket and otherwise the sum of the amounts, added from the
  left in the arithmetic of doubles, divided by the number of records. When the amounts are
  integers whose magnitudes add up to at most \<open>2^53\<close>, the sum is exact and the value is the
  double nearest to the arithmetic mean; two records of amounts 100 and 300 give 200. The guard
  against the empty bucket is never needed after the group stage, whose buckets all hold a
  record.
\<close>

theorem avgAmount_mean:
  "((\<forall>i \<in> set its. \<exists>r. get_prop i ''amount'' = VNum (Fin r)) \<longrightarrow>
      metric_value e ''avgAmount'' its
        = Inr (VNum (if its = [] then Fin 0
                     else num_div (float_sum (map amount_of its))
                                  (Fin (of_nat (length its))))))
   \<and> ((\<forall>i \<in> set its. \<exists>r. get_prop i ''amount'' = VNum (Fin r) \<and> is_integer r)
        \<and> sum_list (map (\<lambda>i. \<bar>amount_of i\<bar>) its) \<le> 9007199254740992 \<and> its \<noteq> [] \<longrightarrow>
      metric_value e ''avgAmount'' its
        = Inr (VNum (round_double (sum_list (map amount_of its) / of_nat (length its)))))
   \<and> metric_value e ''avgAmount''
        [[(''amount'', VNum (Fin 100))], [(''amount'', VNum (Fin 300))]] = Inr (VNum (Fin 200))
   \<and> (grouped e gb dk [] xs = Inr acc \<longrightarrow> (\<forall>g \<in> set (object_values acc). items g \<noteq> []))"
proof (intro conjI impI)
  assume "\<forall>i \<in> set its. \<exists>r. get_prop i ''amount'' = VNum (Fin r)"
  then show "metric_value e ''avgAmount'' its
        = Inr (VNum (if its = [] then Fin 0
                     else num_div (float_sum (map amount_of its))
                                  (Fin (of_nat (length its)))))"
    by (rule avg_finite)
next
  assume "(\<forall>i \<in> set its. \<exists>r. get_prop i ''amount'' = VNum (Fin r) \<and> is_integer r)
        \<and> sum_list (map (\<lambda>i. \<bar>amount_of i\<bar>) its) \<le> 9007199254740992 \<and> its \<noteq> []"
  then show "metric_value e ''avgAmount'' its
        = Inr (VNum (round_double (sum_list (map amount_of its) / of_nat (length its))))"
    by (intro avg_exact) simp_all
next
  let ?its = "[[(''amount'', VNum (Fin 100))], [(''amount'', VNum (Fin 300))]]"
  have "metric_value e ''avgAmount'' ?its
          = Inr (VNum (round_double (sum_list (map amount_of ?its) / of_nat (length ?its))))"
    by (intro avg_exact) (simp_all add: get_prop_def amount_of_def is_integer_def)
  moreover have "sum_list (map amount_of ?its) / of_nat (length ?its) = 200"
    by (simp add: get_prop_def amount_of_def)
  moreover have "round_double 200 = Fin 200"
    by (rule round_double_integer) (simp_all add: is_integer_def)
  ultimately show "metric_value e ''avgAmount'' ?its = Inr (VNum (Fin 200))"
    by simp
next
  assume "grouped e gb dk [] xs = Inr acc"
  then have "well_filed e gb dk acc" by (rule well_filed_grouped)
  then show "\<forall>g \<in> set (object_values acc). items g \<noteq> []"
    unfolding well_filed_def set_object_values by auto
qed

theorem avgAmount_mean_witness:
  "get_prop donation_a ''amount'' = VNum (Fin 100)
   \<and> get_prop donation_b ''amount'' = VNum (Fin 50)
   \<and> is_integer 100 \<and> is_integer 50
   \<and> metric_value host_utc ''avgAmount'' [donation_a, donation_b] = Inr (VNum (Fin 75))
   \<and> metric_value host_utc ''avgAmount'' [] = Inr (VNum (Fin 0))
   \<and> metric_value host_utc ''avgAmount'' [one_unit, no_units, no_units]
       = Inr (VNum (Fin (6004799503160661 / 18014398509481984)))
   \<and> grouped host_utc ''status'' ''donationDate'' [] sample_records
       = Inr [(''Open'', \<lparr>bucket.name = VStr ''Open'', items = [donation_a, donation_b]\<rparr>),
              (''Closed'', \<lparr>bucket.name = VStr ''Closed'', items = [donation_c]\<rparr>)]
   \<and> [] \<notin> items ` set (object_values
           [(''Open'', \<lparr>bucket.name = VStr ''Open'', items = [donation_a, donation_b]\<rparr>),
            (''Closed'', \<lparr>bucket.name = VStr ''Closed'', items = [donation_c]\<rparr>)])"
proof -
  have amts: "get_prop donation_a ''amount'' = VNum (Fin 100)"
    "get_prop donation_b ''amount'' = VNum (Fin 50)"
    "get_prop one_unit ''amount'' = VNum (Fin 1)"
    "get_prop no_units ''amount'' = VNum (Fin 0)"
    by (simp_all add: donation_a_def donation_b_def one_unit_def no_units_def get_prop_def)
  have ints: "is_integer 100" "is_integer 50" "is_integer 1" "is_integer 0"
    by (simp_all add: is_integer_def)
  have h1: "(\<forall>i \<in> set [donation_a, donation_b].
                \<exists>r. get_prop i ''amount'' = VNum (Fin r) \<and> is_integer r)
      \<and> sum_list (map (\<lambda>i. \<bar>amount_of i\<bar>) [donation_a, donation_b]) \<le> 9007199254740992
      \<and> [donation_a, donation_b] \<noteq> []"
    using amts ints by (simp add: amount_of_def)
  have h2: "(\<forall>i \<in> set [one_unit, no_units, no_units].
                \<exists>r. get_prop i ''amount'' = VNum (Fin r) \<and> is_integer r)
      \<and> sum_list (map (\<lambda>i. \<bar>amount_of i\<bar>) [one_unit, no_units, no_units]) \<le> 9007199254740992
      \<and> [one_unit, no_units, no_units] \<noteq> []"
    using amts ints by (simp add: amount_of_def)
  have m1: "round_double (sum_list (map amount_of [donation_a, donation_b])
                          / of_nat (length [donation_a, donation_b])) = Fin 75"
    by code_simp
  have m2: "round_double (sum_list (map amount_of [one_unit, no_units, no_units])
                          / of_nat (length [one_unit, no_units, no_units]))
              = Fin (6004799503160661 / 18014398509481984)"
    by code_simp
  have acc: "grouped host_utc ''status'' ''donationDate'' [] sample_records
       = Inr [(''Open'', \<lparr>bucket.name = VStr ''Open'', items = [donation_a, donation_b]\<rparr>),
              (''Closed'', \<lparr>bucket.name = VStr ''Closed'', items = [donation_c]\<rparr>)]"
    by code_simp
  note a = avgAmount_mean [of "[donation_a, donation_b]" host_utc "''status''" "''donationDate''"
      sample_records "[(''Open'', \<lparr>bucket.name = VStr ''Open'', items = [donation_a, donation_b]\<rparr>),
              (''Closed'', \<lparr>bucket.name = VStr ''Closed'', items = [donation_c]\<rparr>)]"]
  note b = avgAmount_mean [of "[]" host_utc "''status''" "''donationDate''" sample_records "[]"]
  note c = avgAmount_mean [of "[one_unit, no_units, no_units]" host_utc "''status''"
      "''donationDate''" sample_records "[]"]
  have 1: "metric_value host_utc ''avgAmount'' [donation_a, donation_b] = Inr (VNum (Fin 75))"
    using a h1 unfolding m1 by blast
  have 2: "metric_value host_utc ''avgAmount'' [] = Inr (VNum (Fin 0))"
    using b by simp
  have 3: "metric_value host_utc ''avgAmount'' [one_unit, no_units, no_units]
       = Inr (VNum (Fin (6004799503160661 / 18014398509481984)))"
    using c h2 unfolding m2 by blast
  have 4: "[] \<notin> items ` set (object_values
           [(''Open'', \<lparr>bucket.name = VStr ''Open'', items = [donation_a, donation_b]\<rparr>),
            (''Closed'', \<lparr>bucket.name = VStr ''Closed'', items = [donation_c]\<rparr>)])"
    using a acc by auto
  show ?thesis using 1 2 3 4 amts(1,2) ints(1,2) acc by blast
qed

theorem avgAmount_absorption_counterexample:
  "metric_value host_utc ''avgAmount'' [two_53, one_unit, one_unit, one_unit]
     = Inr (VNum (Fin 2251799813685248))
   \<and> sum_list (map amount_of [two_53, one_unit, one_unit, one_unit])
       / of_nat (length [two_53, one_unit, one_unit, one_unit]) = 9007199254740995 / 4
   \<and> round_double (9007199254740995 / 4) = Fin 2251799813685249"
  by code_simp

subsection \<open>The order of the keys\<close>

lemma map_of_Some_in_keys: "map_of acc k = Some b \<Longrightarrow> k \<in> set (map fst acc)"
  by (metis map_of_eq_None_iff option.distinct(1) set_map)

lemma map_of_None_notin_keys: "map_of acc k = None \<Longrightarrow> k \<notin> set (map fst acc)"
  by (simp add: map_of_eq_None_iff)

lemma group_step_keys:
  assumes "group_step e gb dk acc i = Inr acc'"
  shows "map fst acc' =
     (if keyed e gb dk i
      then (if key_string e gb dk i \<in> set (map fst acc) then map fst acc
            else map fst acc @ [key_string e gb dk i])
      else map fst acc)"
proof (cases "keyed e gb dk i")
  case False
  then show ?thesis using assms by (simp add: group_step_unkeyed)
next
  case True
  show ?thesis
  proof (cases "map_of acc (key_string e gb dk i)")
    case None
    then show ?thesis
      using assms True map_of_None_notin_keys [OF None]
      by (auto simp: group_step_keyed split: if_splits)
  next
    case (Some b)
    then show ?thesis
      using assms True map_of_Some_in_keys [OF Some]
      by (auto simp: group_step_keyed)
  qed
qed

lemma grouped_keys:
  "grouped e gb dk acc xs = Inr acc' \<Longrightarrow>
   map fst acc' =
     fold (\<lambda>k seen. if k \<in> set seen then seen else seen @ [k])
          (map (key_string e gb dk) (filter (keyed e gb dk) xs)) (map fst acc)"
proof (induction xs arbitrary: acc)
  case Nil
  then show ?case by simp
next
  case (Cons x xs)
  from Cons.prems obtain a where a: "group_step e gb dk acc x = Inr a"
    and rest: "grouped e gb dk a xs = Inr acc'"
    by (auto split: sum.splits)
  show ?case
    using Cons.IH [OF rest] group_step_keys [OF a] by simp
qed

lemma grouped_first_seen:
  "grouped e gb dk [] xs = Inr acc \<Longrightarrow>
   map fst acc = first_seen (map (key_string e gb dk) (filter (keyed e gb dk) xs))"
  using grouped_keys [of e gb dk "[]" xs acc] by (simp add: first_seen_def)

lemma map_points_names:
  "map_points (to_point e gb m cls tms) gs = Inr ps \<Longrightarrow>
   map ReportPoint.name ps = map (display_name e gb cls tms) gs"
proof (induction gs arbitrary: ps)
  case Nil
  then show ?case by simp
next
  case (Cons g gs)
  then show ?case
    by (auto simp: to_point_def split: sum.splits)
qed

subsection \<open>The order stage\<close>

lemma mset_insert_by: "mset (insert_by cmp x ys) = add_mset x (mset ys)"
  by (induction ys) auto

lemma mset_js_sort: "mset (js_sort cmp xs) = mset xs"
  by (induction xs) (simp_all add: js_sort_def mset_insert_by)

lemma set_js_sort: "set (js_sort cmp xs) = set xs"
  by (metis mset_js_sort set_mset_mset)

lemma adjacent_insert_by:
  assumes anti: "\<And>a b. cmp a b > 0 \<Longrightarrow> cmp b a \<le> 0"
  shows "adjacent (\<lambda>a b. cmp a b \<le> 0) ys \<Longrightarrow> adjacent (\<lambda>a b. cmp a b \<le> 0) (insert_by cmp x ys)"
proof (induction "\<lambda>a b. cmp a b \<le> 0" ys rule: adjacent.induct)
  case 1
  show ?case by simp
next
  case (2 y)
  show ?case using anti [of x y] by auto
next
  case (3 y z zs)
  then show ?case using anti [of x y] by auto
qed

lemma adjacent_js_sort:
  assumes "\<And>a b. cmp a b > 0 \<Longrightarrow> cmp b a \<le> 0"
  shows "adjacent (\<lambda>a b. cmp a b \<le> 0) (js_sort cmp xs)"
proof (induction xs)
  case Nil
  show ?case by (simp add: js_sort_def)
next
  case (Cons x xs)
  have "js_sort cmp (x # xs) = insert_by cmp x (js_sort cmp xs)"
    by (simp add: js_sort_def)
  then show ?case
    using adjacent_insert_by [of cmp "js_sort cmp xs" x] assms Cons.IH by simp
qed

lemma adjacent_mono:
  "adjacent R xs \<Longrightarrow> (\<And>a b. a \<in> set xs \<Longrightarrow> b \<in> set xs \<Longrightarrow> R a b \<Longrightarrow> S a b) \<Longrightarrow> adjacent S xs"
  by (induction R xs rule: adjacent.induct) auto

lemma js_sort_unordered:
  "(\<And>a b. a \<in> set xs \<Longrightarrow> b \<in> set xs \<Longrightarrow> cmp a b \<le> 0) \<Longrightarrow> js_sort cmp xs = xs"
proof (induction xs)
  case Nil
  show ?case by (simp add: js_sort_def)
next
  case (Cons x xs)
  have IH: "js_sort cmp xs = xs" using Cons by simp
  have "js_sort cmp (x # xs) = insert_by cmp x xs"
    by (simp add: js_sort_def IH[unfolded js_sort_def])
  also have "\<dots> = x # xs"
    using Cons.prems by (cases xs) auto
  finally show ?case .
qed

lemma compare_points_anti:
  assumes "\<And>s t. localeCompare e s t > 0 \<Longrightarrow> localeCompare e t s \<le> 0"
  shows "compare_points e a b > 0 \<Longrightarrow> compare_points e b a \<le> 0"
  using assms by (auto simp: compare_points_def split: jsval.splits)

lemma compare_points_strs:
  "is_str (ReportPoint.name a) \<Longrightarrow> is_str (ReportPoint.name b) \<Longrightarrow>
   compare_points e a b = localeCompare e (str_of (ReportPoint.name a)) (str_of (ReportPoint.name b))"
  by (auto simp: compare_points_def is_str_def str_of_def split: jsval.splits)

lemma compare_points_not_str:
  "\<not> is_str (ReportPoint.name a) \<Longrightarrow> compare_points e a b = 0"
  by (auto simp: compare_points_def is_str_def split: jsval.splits)

text \<open>
  Claim C7, as amended. The points are computed in the order in which \<open>Object.values\<close> lists
  the buckets (array-index keys in ascending numeric order, then the other keys in the order in
  which they were first encountered) and sorted by the comparator; the result is a permutation
  of them. When every name is a string, and \<open>localeCompare\<close> does not order two strings both
  ways, consecutive points are in ascending \<open>localeCompare\<close> order. When no name is a string,
  the comparator is 0 throughout and the points stay in the order of \<open>Object.values\<close>.
\<close>

theorem order_stage:
  assumes "gb \<noteq> []"
    and "grouped e gb dk [] (filteredData e dk fs base) = Inr acc"
    and "map_points (to_point e gb m cls tms) (object_values acc) = Inr ups"
  shows "pipeline e cls tms base dk fs gb m = Inr (js_sort (compare_points e) ups)
    \<and> map fst acc = first_seen (map (key_string e gb dk)
                                  (filter (keyed e gb dk) (filteredData e dk fs base)))
    \<and> map ReportPoint.name ups = map (display_name e gb cls tms) (object_values acc)
    \<and> mset (js_sort (compare_points e) ups) = mset ups
    \<and> ((\<forall>p \<in> set ups. is_str (ReportPoint.name p))
        \<and> (\<forall>s t. localeCompare e s t > 0 \<longrightarrow> localeCompare e t s \<le> 0) \<longrightarrow>
        adjacent (\<lambda>a b. localeCompare e (str_of (ReportPoint.name a))
                                      (str_of (ReportPoint.name b)) \<le> 0)
                 (js_sort (compare_points e) ups))
    \<and> ((\<forall>p \<in> set ups. \<not> is_str (ReportPoint.name p)) \<longrightarrow>
        js_sort (compare_points e) ups = ups)"
proof (intro conjI impI)
  show "pipeline e cls tms base dk fs gb m = Inr (js_sort (compare_points e) ups)"
    using assms by (simp add: pipeline_def)
  show "map fst acc = first_seen (map (key_string e gb dk)
                                  (filter (keyed e gb dk) (filteredData e dk fs base)))"
    using assms(2) by (rule grouped_first_seen)
  show "map ReportPoint.name ups = map (display_name e gb cls tms) (object_values acc)"
    using assms(3) by (rule map_points_names)
  show "mset (js_sort (compare_points e) ups) = mset ups"
    by (rule mset_js_sort)
next
  assume a: "(\<forall>p \<in> set ups. is_str (ReportPoint.name p))
        \<and> (\<forall>s t. localeCompare e s t > 0 \<longrightarrow> localeCompare e t s \<le> 0)"
  have "adjacent (\<lambda>a b. compare_points e a b \<le> 0) (js_sort (compare_points e) ups)"
    by (rule adjacent_js_sort) (use a compare_points_anti in blast)
  then show "adjacent (\<lambda>a b. localeCompare e (str_of (ReportPoint.name a))
                                      (str_of (ReportPoint.name b)) \<le> 0)
                 (js_sort (compare_points e) ups)"
    by (rule adjacent_mono) (use a in \<open>simp add: set_js_sort compare_points_strs\<close>)
next
  assume "\<forall>p \<in> set ups. \<not> is_str (ReportPoint.name p)"
  then show "js_sort (compare_points e) ups = ups"
    by (intro js_sort_unordered) (simp add: compare_points_not_str)
qed

lemma code_unit_compare_anti:
  "code_unit_compare s t > 0 \<Longrightarrow> code_unit_compare t s \<le> 0"
proof (induction s t rule: code_unit_compare.induct)
  case (4 x xs y ys)
  have "(of_char x :: nat) = of_char y \<Longrightarrow> x = y"
    by (rule of_char_eqI)
  then have "x \<noteq> y \<Longrightarrow> \<not> (of_char x :: nat) < of_char y \<Longrightarrow> (of_char y :: nat) < of_char x"
    by (meson linorder_neqE_nat)
  then show ?case using 4 by (auto split: if_splits)
qed simp_all

theorem order_stage_witness:
  "''status'' \<noteq> []
   \<and> grouped host_utc ''status'' ''donationDate'' []
        (filteredData host_utc ''donationDate'' no_filters sample_records)
       = Inr [(''Open'', \<lparr>bucket.name = VStr ''Open'', items = [donation_a, donation_b]\<rparr>),
              (''Closed'', \<lparr>bucket.name = VStr ''Closed'', items = [donation_c]\<rparr>)]
   \<and> map_points (to_point host_utc ''status'' ''count'' [] [])
        (object_values
          [(''Open'', \<lparr>bucket.name = VStr ''Open'', items = [donation_a, donation_b]\<rparr>),
           (''Closed'', \<lparr>bucket.name = VStr ''Closed'', items = [donation_c]\<rparr>)])
       = Inr [\<lparr>ReportPoint.name = VStr ''Open'', value = VNum (Fin 2)\<rparr>,
              \<lparr>ReportPoint.name = VStr ''Closed'', value = VNum (Fin 1)\<rparr>]
   \<and> is_str (VStr ''Open'') \<and> is_str (VStr ''Closed'')
   \<and> \<not> (\<exists>s t. localeCompare host_utc s t > 0 \<and> localeCompare host_utc t s > 0)
   \<and> pipeline host_utc [] [] sample_records ''donationDate'' no_filters ''status'' ''count''
       = Inr [\<lparr>ReportPoint.name = VStr ''Closed'', value = VNum (Fin 1)\<rparr>,
              \<lparr>ReportPoint.name = VStr ''Open'', value = VNum (Fin 2)\<rparr>]
   \<and> adjacent (\<lambda>a b. localeCompare host_utc (str_of (ReportPoint.name a))
                                            (str_of (ReportPoint.name b)) \<le> 0)
        [\<lparr>ReportPoint.name = VStr ''Closed'', value = VNum (Fin 1)\<rparr>,
         \<lparr>ReportPoint.name = VStr ''Open'', value = VNum (Fin 2)\<rparr>]
   \<and> \<not> is_str (VNum (Fin 2)) \<and> \<not> is_str (VNum (Fin 10))
   \<and> js_sort (compare_points host_utc)
        [\<lparr>ReportPoint.name = VNum (Fin 2), value = VNum (Fin 1)\<rparr>,
         \<lparr>ReportPoint.name = VNum (Fin 10), value = VNum (Fin 1)\<rparr>]
       = [\<lparr>ReportPoint.name = VNum (Fin 2), value = VNum (Fin 1)\<rparr>,
          \<lparr>ReportPoint.name = VNum (Fin 10), value = VNum (Fin 1)\<rparr>]"
proof -
  let ?acc = "[(''Open'', \<lparr>bucket.name = VStr ''Open'', items = [donation_a, donation_b]\<rparr>),
              (''Closed'', \<lparr>bucket.name = VStr ''Closed'', items = [donation_c]\<rparr>)]"
  let ?ups = "[\<lparr>ReportPoint.name = VStr ''Open'', value = VNum (Fin 2)\<rparr>,
              \<lparr>ReportPoint.name = VStr ''Closed'', value = VNum (Fin 1)\<rparr>]"
  let ?nacc = "[(''10'', \<lparr>bucket.name = VNum (Fin 10), items = [campaign_10]\<rparr>),
               (''2'', \<lparr>bucket.name = VNum (Fin 2), items = [campaign_2]\<rparr>)]"
  let ?nups = "[\<lparr>ReportPoint.name = VNum (Fin 2), value = VNum (Fin 1)\<rparr>,
               \<lparr>ReportPoint.name = VNum (Fin 10), value = VNum (Fin 1)\<rparr>]"
  have gb: "''status'' \<noteq> []" by simp
  have acc: "grouped host_utc ''status'' ''donationDate'' []
        (filteredData host_utc ''donationDate'' no_filters sample_records) = Inr ?acc"
    by code_simp
  have ups: "map_points (to_point host_utc ''status'' ''count'' [] []) (object_values ?acc) = Inr ?ups"
    by code_simp
  have strs: "\<forall>p \<in> set ?ups. is_str (ReportPoint.name p)"
    by code_simp
  have anti: "\<forall>s t. localeCompare host_utc s t > 0 \<longrightarrow> localeCompare host_utc t s \<le> 0"
    by (simp add: host_utc_def code_unit_compare_anti)
  have sorted: "js_sort (compare_points host_utc) ?ups
      = [\<lparr>ReportPoint.name = VStr ''Closed'', value = VNum (Fin 1)\<rparr>,
         \<lparr>ReportPoint.name = VStr ''Open'', value = VNum (Fin 2)\<rparr>]"
    by code_simp
  note t = order_stage [OF gb acc ups]
  have gb2: "''campaign'' \<noteq> []" by simp
  have nacc: "grouped host_utc ''campaign'' ''donationDate'' []
        (filteredData host_utc ''donationDate'' no_filters [campaign_10, campaign_2]) = Inr ?nacc"
    by code_simp
  have nups: "map_points (to_point host_utc ''campaign'' ''count'' [] []) (object_values ?nacc) = Inr ?nups"
    by code_simp
  have nstrs: "\<forall>p \<in> set ?nups. \<not> is_str (ReportPoint.name p)"
    by code_simp
  note n = order_stage [OF gb2 nacc nups]
  have anti': "\<not> (\<exists>s t. localeCompare host_utc s t > 0 \<and> localeCompare host_utc t s > 0)"
    using anti by (meson not_less)
  have kinds: "is_str (VStr ''Open'')" "is_str (VStr ''Closed'')"
    "\<not> is_str (VNum (Fin 2))" "\<not> is_str (VNum (Fin 10))"
    by (simp_all add: is_str_def)
  show ?thesis
    using t n gb acc ups strs anti anti' nstrs kinds unfolding sorted by blast
qed

theorem index_keys_counterexample:
  "first_seen (map (key_string host_utc ''campaign'' ''donationDate'')
                 (filter (keyed host_utc ''campaign'' ''donationDate'')
                    (filteredData host_utc ''donationDate'' no_filters [campaign_10, campaign_2])))
     = [''10'', ''2'']
   \<and> grouped host_utc ''campaign'' ''donationDate'' []
        (filteredData host_utc ''donationDate'' no_filters [campaign_10, campaign_2])
     = Inr [(''10'', \<lparr>bucket.name = VNum (Fin 10), items = [campaign_10]\<rparr>),
            (''2'', \<lparr>bucket.name = VNum (Fin 2), items = [campaign_2]\<rparr>)]
   \<and> pipeline host_utc [] [] [campaign_10, campaign_2]
       ''donationDate'' no_filters ''campaign'' ''count''
     = Inr [\<lparr>ReportPoint.name = VNum (Fin 2), value = VNum (Fin 1)\<rparr>,
            \<lparr>ReportPoint.name = VNum (Fin 10), value = VNum (Fin 1)\<rparr>]"
  by code_simp

subsection \<open>Where the records go\<close>

lemma push_item_in:
  "(k, b) \<in> set acc \<Longrightarrow>
   (k, if k = k0 then b\<lparr>items := items b @ [i]\<rparr> else b) \<in> set (push_item k0 i acc)"
  by (induction acc) auto

lemma group_step_keeps:
  assumes "group_step e gb dk a i = Inr a'" and "(k, b) \<in> set a" and "j \<in> set (items b)"
  shows "\<exists>b'. (k, b') \<in> set a' \<and> j \<in> set (items b')"
proof (cases "keyed e gb dk i")
  case False
  then show ?thesis using assms by (auto simp: group_step_unkeyed)
next
  case True
  show ?thesis
  proof (cases "map_of a (key_string e gb dk i)")
    case None
    then show ?thesis
      using assms True by (auto simp: group_step_keyed split: if_splits)
  next
    case (Some b0)
    then have a': "a' = push_item (key_string e gb dk i) i a"
      using assms True by (simp add: group_step_keyed)
    show ?thesis
      using push_item_in [OF assms(2), of "key_string e gb dk i" i] assms(3)
      unfolding a' by (auto split: if_splits)
  qed
qed

lemma group_step_files:
  assumes "group_step e gb dk a i = Inr a'" and "keyed e gb dk i"
  shows "\<exists>b. (key_string e gb dk i, b) \<in> set a' \<and> i \<in> set (items b)"
proof (cases "map_of a (key_string e gb dk i)")
  case None
  then show ?thesis
    using assms by (auto simp: group_step_keyed split: if_splits)
next
  case (Some b0)
  then have a': "a' = push_item (key_string e gb dk i) i a"
    using assms by (simp add: group_step_keyed)
  have "(key_string e gb dk i, b0) \<in> set a"
    using Some by (rule map_of_SomeD)
  from push_item_in [OF this, of "key_string e gb dk i" i]
  show ?thesis unfolding a' by auto
qed

lemma grouped_keeps:
  "grouped e gb dk a xs = Inr a' \<Longrightarrow> (k, b) \<in> set a \<Longrightarrow> j \<in> set (items b) \<Longrightarrow>
   \<exists>b'. (k, b') \<in> set a' \<and> j \<in> set (items b')"
proof (induction xs arbitrary: a b)
  case Nil
  then show ?case by auto
next
  case (Cons x xs)
  from Cons.prems(1) obtain a1 where a1: "group_step e gb dk a x = Inr a1"
    and rest: "grouped e gb dk a1 xs = Inr a'"
    by (auto split: sum.splits)
  from group_step_keeps [OF a1 Cons.prems(2,3)]
  obtain b1 where "(k, b1) \<in> set a1" "j \<in> set (items b1)" by blast
  then show ?case using Cons.IH [OF rest] by blast
qed

lemma grouped_files:
  "grouped e gb dk a xs = Inr a' \<Longrightarrow> j \<in> set xs \<Longrightarrow> keyed e gb dk j \<Longrightarrow>
   \<exists>b. (key_string e gb dk j, b) \<in> set a' \<and> j \<in> set (items b)"
proof (induction xs arbitrary: a)
  case Nil
  then show ?case by simp
next
  case (Cons x xs)
  from Cons.prems(1) obtain a1 where a1: "group_step e gb dk a x = Inr a1"
    and rest: "grouped e gb dk a1 xs = Inr a'"
    by (auto split: sum.splits)
  show ?case
  proof (cases "j = x")
    case True
    from group_step_files [OF a1] Cons.prems(3) True
    obtain b1 where "(key_string e gb dk j, b1) \<in> set a1" "j \<in> set (items b1)" by blast
    then show ?thesis using grouped_keeps [OF rest] by blast
  next
    case False
    then have "j \<in> set xs" using Cons.prems(2) by simp
    then show ?thesis using Cons.IH [OF rest _ Cons.prems(3)] by blast
  qed
qed

lemma grouped_returns:
  "\<forall>i \<in> set xs. keyed e gb dk i \<longrightarrow> key_string e gb dk i \<notin> set protoKeys \<Longrightarrow>
   \<exists>a'. grouped e gb dk a xs = Inr a'"
proof (induction xs arbitrary: a)
  case Nil
  show ?case by simp
next
  case (Cons x xs)
  have "\<exists>a1. group_step e gb dk a x = Inr a1"
  proof (cases "keyed e gb dk x")
    case False
    then show ?thesis by (simp add: group_step_unkeyed)
  next
    case True
    then show ?thesis using Cons.prems
      by (auto simp: group_step_keyed split: option.splits)
  qed
  then obtain a1 where a1: "group_step e gb dk a x = Inr a1" by blast
  from Cons.IH [of a1] Cons.prems obtain a' where "grouped e gb dk a1 xs = Inr a'" by auto
  then show ?case using a1 by simp
qed

subsection \<open>Grouping by month\<close>

lemma dash_not_proto: "CHR ''-'' \<in> set k \<Longrightarrow> k \<notin> set protoKeys"
  by (auto simp: protoKeys_def)

lemma group_key_month:
  "group_key e ''month'' dk i =
     VStr (to_string e (VNum (getFullYear e (new_Date e (get_prop i dk)))) @ ''-'' @
           padStart2 (to_string e (js_add e (VNum (getMonth e (new_Date e (get_prop i dk))))
                                        (VNum (Fin 1)))))"
  by (simp add: group_key_def Let_def)

lemma month_key_form:
  "\<exists>y m. group_key e ''month'' dk i = VStr (y @ ''-'' @ m)"
  unfolding group_key_month by blast

lemma month_keyed: "keyed e ''month'' dk i"
  using month_key_form [of e dk i] by (auto simp: keyed_def nullish_def)

lemma month_key_not_proto: "key_string e ''month'' dk i \<notin> set protoKeys"
proof -
  obtain y m where "group_key e ''month'' dk i = VStr (y @ ''-'' @ m)"
    using month_key_form by blast
  then have "CHR ''-'' \<in> set (key_string e ''month'' dk i)"
    by (simp add: key_string_def)
  then show ?thesis by (rule dash_not_proto)
qed

lemma month_key_invalid:
  "new_Date e (get_prop i dk) = None \<Longrightarrow> group_key e ''month'' dk i = VStr ''NaN-NaN''"
  by (simp add: group_key_def Let_def getFullYear_def getMonth_def num_to_string_def
        js_add_def padStart2_def)

lemma month_label_invalid:
  "display_name e ''month'' cls tms \<lparr>bucket.name = VStr ''NaN-NaN'', items = its\<rparr>
   = VStr (toLocaleString e (parseOther e ''NaN-NaN-02''))"
  by (simp add: display_name_def Let_def new_Date_def date_parse_def parse_iso_date_def
        iso_fields_def)

text \<open>
  Claim C10, as amended. Grouping by month, a record whose date is invalid has the key
  \<open>NaN-NaN\<close>; the group stage does not throw, and if such a record survives the filter, the
  bucket \<open>NaN-NaN\<close> exists, is named \<open>NaN-NaN\<close> and holds every surviving record with an invalid
  date. Its label is the rendering of \<open>new Date('NaN-NaN-02')\<close>, a string whose parsing is
  left to the engine: \<open>Invalid Date\<close> where the engine rejects it.
\<close>

theorem invalid_date_month:
  assumes "new_Date e (get_prop i dk) = None"
  shows "group_key e ''month'' dk i = VStr ''NaN-NaN''
    \<and> (\<exists>acc. grouped e ''month'' dk [] (filteredData e dk fs base) = Inr acc
          \<and> (i \<in> set (filteredData e dk fs base) \<longrightarrow>
               (\<exists>b. map_of acc ''NaN-NaN'' = Some b \<and> bucket.name b = VStr ''NaN-NaN''
                  \<and> (\<forall>j \<in> set (filteredData e dk fs base).
                        new_Date e (get_prop j dk) = None \<longrightarrow> j \<in> set (items b)))))
    \<and> display_name e ''month'' cls tms \<lparr>bucket.name = VStr ''NaN-NaN'', items = its\<rparr>
        = VStr (toLocaleString e (parseOther e ''NaN-NaN-02''))
    \<and> (parseOther e ''NaN-NaN-02'' = None \<longrightarrow>
        display_name e ''month'' cls tms \<lparr>bucket.name = VStr ''NaN-NaN'', items = its\<rparr>
          = VStr ''Invalid Date'')"
proof (intro conjI)
  let ?xs = "filteredData e dk fs base"
  show key: "group_key e ''month'' dk i = VStr ''NaN-NaN''"
    using assms by (rule month_key_invalid)
  obtain acc where acc: "grouped e ''month'' dk [] ?xs = Inr acc"
    using grouped_returns [of ?xs e "''month''" dk "[]"] month_key_not_proto by blast
  have wf: "well_filed e ''month'' dk acc"
    using acc by (rule well_filed_grouped)
  have "\<exists>b. map_of acc ''NaN-NaN'' = Some b \<and> bucket.name b = VStr ''NaN-NaN''
          \<and> (\<forall>j \<in> set ?xs. new_Date e (get_prop j dk) = None \<longrightarrow> j \<in> set (items b))"
    if i: "i \<in> set ?xs"
  proof -
    have ks: "key_string e ''month'' dk j = ''NaN-NaN''" if "new_Date e (get_prop j dk) = None" for j
      using month_key_invalid [OF that] by (simp add: key_string_def)
    from grouped_files [OF acc i month_keyed] ks [OF assms]
    obtain b where b: "(''NaN-NaN'', b) \<in> set acc" and ib: "i \<in> set (items b)" by auto
    have d: "distinct (map fst acc)" using wf by (simp add: well_filed_def)
    have m: "map_of acc ''NaN-NaN'' = Some b"
      using d b by (rule map_of_is_SomeI)
    have props: "items b \<noteq> [] \<and> bucket.name b = group_key e ''month'' dk (hd (items b))
        \<and> (\<forall>j \<in> set (items b). keyed e ''month'' dk j \<and> key_string e ''month'' dk j = ''NaN-NaN'')"
      using wf b unfolding well_filed_def by blast
    then have "hd (items b) \<in> set (items b)" by simp
    then have "to_string e (group_key e ''month'' dk (hd (items b))) = ''NaN-NaN''"
      using props by (simp add: key_string_def)
    moreover obtain y m' where "group_key e ''month'' dk (hd (items b)) = VStr (y @ ''-'' @ m')"
      using month_key_form by blast
    ultimately have nm: "bucket.name b = VStr ''NaN-NaN''"
      using props by simp
    have "j \<in> set (items b)" if j: "j \<in> set ?xs" and inv: "new_Date e (get_prop j dk) = None" for j
    proof -
      from grouped_files [OF acc j month_keyed] ks [OF inv]
      obtain b' where b': "(''NaN-NaN'', b') \<in> set acc" and jb: "j \<in> set (items b')" by auto
      have "map_of acc ''NaN-NaN'' = Some b'" using d b' by (rule map_of_is_SomeI)
      then show ?thesis using m jb by simp
    qed
    then show ?thesis using m nm by blast
  qed
  then show "\<exists>acc. grouped e ''month'' dk [] ?xs = Inr acc
          \<and> (i \<in> set ?xs \<longrightarrow>
               (\<exists>b. map_of acc ''NaN-NaN'' = Some b \<and> bucket.name b = VStr ''NaN-NaN''
                  \<and> (\<forall>j \<in> set ?xs. new_Date e (get_prop j dk) = None \<longrightarrow> j \<in> set (items b))))"
    using acc by blast
  show "display_name e ''month'' cls tms \<lparr>bucket.name = VStr ''NaN-NaN'', items = its\<rparr>
        = VStr (toLocaleString e (parseOther e ''NaN-NaN-02''))"
    by (rule month_label_invalid)
  show "parseOther e ''NaN-NaN-02'' = None \<longrightarrow>
        display_name e ''month'' cls tms \<lparr>bucket.name = VStr ''NaN-NaN'', items = its\<rparr>
          = VStr ''Invalid Date''"
    by (simp add: month_label_invalid toLocaleString_def)
qed

theorem invalid_date_month_witness:
  "new_Date host_utc (get_prop undated ''donationDate'') = None
   \<and> undated \<in> set (filteredData host_utc ''donationDate'' no_filters
                       [undated, donation_a, [(''donationDate'', VStr ''soon'')]])
   \<and> parseOther host_utc ''NaN-NaN-02'' = None
   \<and> group_key host_utc ''month'' ''donationDate'' undated = VStr ''NaN-NaN''
   \<and> grouped host_utc ''month'' ''donationDate'' []
        (filteredData host_utc ''donationDate'' no_filters
           [undated, donation_a, [(''donationDate'', VStr ''soon'')]])
       = Inr [(''NaN-NaN'', \<lparr>bucket.name = VStr ''NaN-NaN'',
                              items = [undated, [(''donationDate'', VStr ''soon'')]]\<rparr>),
              (''2024-01'', \<lparr>bucket.name = VStr ''2024-01'', items = [donation_a]\<rparr>)]
   \<and> (\<exists>b. map_of [(''NaN-NaN'', \<lparr>bucket.name = VStr ''NaN-NaN'',
                              items = [undated, [(''donationDate'', VStr ''soon'')]]\<rparr>),
                     (''2024-01'', \<lparr>bucket.name = VStr ''2024-01'', items = [donation_a]\<rparr>)]
               ''NaN-NaN'' = Some b
          \<and> bucket.name b = VStr ''NaN-NaN''
          \<and> (\<forall>j \<in> set (filteredData host_utc ''donationDate'' no_filters
                            [undated, donation_a, [(''donationDate'', VStr ''soon'')]]).
                 new_Date host_utc (get_prop j ''donationDate'') = None \<longrightarrow> j \<in> set (items b)))
   \<and> display_name host_utc ''month'' [] []
        \<lparr>bucket.name = VStr ''NaN-NaN'', items = [undated, [(''donationDate'', VStr ''soon'')]]\<rparr>
       = VStr ''Invalid Date''"
proof -
  let ?base = "[undated, donation_a, [(''donationDate'', VStr ''soon'')]]"
  let ?acc = "[(''NaN-NaN'', \<lparr>bucket.name = VStr ''NaN-NaN'',
                              items = [undated, [(''donationDate'', VStr ''soon'')]]\<rparr>),
              (''2024-01'', \<lparr>bucket.name = VStr ''2024-01'', items = [donation_a]\<rparr>)]"
  have h: "new_Date host_utc (get_prop undated ''donationDate'') = None"
    by code_simp
  have i: "undated \<in> set (filteredData host_utc ''donationDate'' no_filters ?base)"
    by code_simp
  have p: "parseOther host_utc ''NaN-NaN-02'' = None"
    by (simp add: host_utc_def)
  have acc: "grouped host_utc ''month'' ''donationDate'' []
        (filteredData host_utc ''donationDate'' no_filters ?base) = Inr ?acc"
    by code_simp
  note t = invalid_date_month [OF h, of no_filters ?base "[]" "[]"
      "[undated, [(''donationDate'', VStr ''soon'')]]"]
  show ?thesis
    using t h i p unfolding acc by auto
qed

theorem invalid_date_label_counterexample:
  "new_Date host_lenient (get_prop undated ''donationDate'') = None
   \<and> pipeline host_lenient [] [] [undated] ''donationDate'' no_filters ''month'' ''count''
     = Inr [\<lparr>ReportPoint.name = VStr ''Feb 2001'', value = VNum (Fin 1)\<rparr>]"
  by code_simp

subsection \<open>Month buckets and the time zone\<close>

text \<open>
  Claim C2. The month key is the year and the zero-padded month of the date field read in local
  time, while a date-only string is parsed as midnight UTC. On a host west of UTC the record
  dated 2024-02-01 therefore gets the key \<open>2024-01\<close>, and the three records dated 2024-01-15,
  2024-01-31 and 2024-02-01 land in one bucket: the claim fails there.
\<close>

theorem month_key_west_of_utc:
  "group_key host_west ''month'' ''donationDate'' [(''donationDate'', VStr ''2024-02-01'')]
     = VStr ''2024-01''
   \<and> pipeline host_west [] []
       [[(''donationDate'', VStr ''2024-01-15'')],
        [(''donationDate'', VStr ''2024-01-31'')],
        [(''donationDate'', VStr ''2024-02-01'')]]
       ''donationDate'' no_filters ''month'' ''count''
     = Inr [\<lparr>ReportPoint.name = VStr ''Jan 2024'', value = VNum (Fin 3)\<rparr>]"
  by code_simp

text \<open>On a host on UTC the same records fall into the two buckets the claim names.\<close>

lemma month_key_on_utc:
  "pipeline host_utc [] []
       [[(''donationDate'', VStr ''2024-01-15'')],
        [(''donationDate'', VStr ''2024-01-31'')],
        [(''donationDate'', VStr ''2024-02-01'')]]
       ''donationDate'' no_filters ''month'' ''count''
     = Inr [\<lparr>ReportPoint.name = VStr ''Feb 2024'', value = VNum (Fin 1)\<rparr>,
            \<lparr>ReportPoint.name = VStr ''Jan 2024'', value = VNum (Fin 2)\<rparr>]"
  by code_simp

subsection \<open>Counting\<close>

text \<open>
  With the metric \<open>count\<close>, or any metric that is not one of the other three, a report that is
  returned conserves the records: the values add up to the number of records that passed the
  filter and have a key, and each value is at least 1. A report is returned whenever no key is
  the name of a member of \<open>Object.prototype\<close>.
\<close>

lemma push_item_total:
  "distinct (map fst acc) \<Longrightarrow> k \<in> set (map fst acc) \<Longrightarrow>
   sum_list (map (\<lambda>p. length (items (snd p))) (push_item k i acc))
     = Suc (sum_list (map (\<lambda>p. length (items (snd p))) acc))"
proof (induction acc)
  case Nil
  then show ?case by simp
next
  case (Cons p acc)
  obtain k0 b0 where p: "p = (k0, b0)" by (cases p)
  show ?case
  proof (cases "k0 = k")
    case True
    then have "k \<notin> set (map fst acc)" using Cons.prems(1) by (simp add: p)
    then have "push_item k i acc = acc"
      by (induction acc) auto
    then show ?thesis using True by (simp add: p)
  next
    case False
    then have "k \<in> set (map fst acc)" using Cons.prems(2) by (simp add: p)
    then show ?thesis using Cons.IH Cons.prems(1) False by (simp add: p)
  qed
qed

lemma group_step_total:
  assumes "well_filed e gb dk a" and "group_step e gb dk a i = Inr a'"
  shows "sum_list (map (\<lambda>p. length (items (snd p))) a')
     = sum_list (map (\<lambda>p. length (items (snd p))) a) + (if keyed e gb dk i then 1 else 0)"
proof (cases "keyed e gb dk i")
  case False
  then show ?thesis using assms by (simp add: group_step_unkeyed)
next
  case True
  show ?thesis
  proof (cases "map_of a (key_string e gb dk i)")
    case None
    then show ?thesis
      using assms True by (auto simp: group_step_keyed split: if_splits)
  next
    case (Some b)
    then have a': "a' = push_item (key_string e gb dk i) i a"
      using assms True by (simp add: group_step_keyed)
    have "distinct (map fst a)" using assms(1) by (simp add: well_filed_def)
    then show ?thesis
      using push_item_total [OF _ map_of_Some_in_keys [OF Some], of i] True
      by (simp add: a')
  qed
qed

lemma grouped_total:
  "grouped e gb dk a xs = Inr a' \<Longrightarrow> well_filed e gb dk a \<Longrightarrow>
   sum_list (map (\<lambda>p. length (items (snd p))) a')
     = sum_list (map (\<lambda>p. length (items (snd p))) a) + length (filter (keyed e gb dk) xs)"
proof (induction xs arbitrary: a)
  case Nil
  then show ?case by simp
next
  case (Cons x xs)
  from Cons.prems(1) obtain a1 where a1: "group_step e gb dk a x = Inr a1"
    and rest: "grouped e gb dk a1 xs = Inr a'"
    by (auto split: sum.splits)
  have wf: "well_filed e gb dk a1"
    using Cons.prems(2) a1 by (rule well_filed_step)
  show ?case
    using Cons.IH [OF rest wf] group_step_total [OF Cons.prems(2) a1] by simp
qed

lemma metric_value_count:
  assumes "m \<noteq> ''totalAmount''" "m \<noteq> ''avgAmount''" "m \<noteq> ''taskCount''"
  shows "metric_value e m its = Inr (count_of its)"
  unfolding metric_value_def by (simp only: assms if_False if_cancel)

lemma map_points_count:
  assumes "m \<noteq> ''totalAmount''" "m \<noteq> ''avgAmount''" "m \<noteq> ''taskCount''"
  shows "map_points (to_point e gb m cls tms) gs
     = Inr (map (\<lambda>g. \<lparr>ReportPoint.name = display_name e gb cls tms g,
                       value = count_of (items g)\<rparr>) gs)"
  by (induction gs) (simp_all add: to_point_def metric_value_count [OF assms])

lemma sum_list_js_sort:
  "sum_list (map f (js_sort cmp xs)) = sum_list (map (f :: 'a \<Rightarrow> rat) xs)"
proof -
  have "mset (map f (js_sort cmp xs)) = mset (map f xs)"
    by (simp add: mset_js_sort)
  then have "sum_mset (mset (map f (js_sort cmp xs))) = sum_mset (mset (map f xs))"
    by (rule arg_cong)
  then show ?thesis by (simp only: sum_mset_sum_list)
qed

lemma sum_list_object_values:
  "sum_list (map f (object_values acc)) = sum_list (map (f :: bucket \<Rightarrow> rat) (map snd acc))"
proof -
  have "mset (map f (object_values acc)) = mset (map f (map snd acc))"
    by (simp only: mset_map mset_object_values)
  then have "sum_mset (mset (map f (object_values acc))) = sum_mset (mset (map f (map snd acc)))"
    by (rule arg_cong)
  then show ?thesis by (simp only: sum_mset_sum_list)
qed

lemma count_conservation:
  assumes "gb \<noteq> []"
    and "m \<noteq> ''totalAmount''" "m \<noteq> ''avgAmount''" "m \<noteq> ''taskCount''"
    and "pipeline e cls tms base dk fs gb m = Inr pts"
  shows "sum_list (map value_num pts)
           = of_nat (length (filter (keyed e gb dk) (filteredData e dk fs base)))
         \<and> (\<forall>p \<in> set pts. value_num p \<ge> 1)"
proof -
  let ?xs = "filteredData e dk fs base"
  let ?pt = "\<lambda>g. \<lparr>ReportPoint.name = display_name e gb cls tms g, value = count_of (items g)\<rparr>"
  from assms(1,5) obtain acc where acc: "grouped e gb dk [] ?xs = Inr acc"
    by (auto simp: pipeline_def split: sum.splits)
  have pts: "pts = js_sort (compare_points e) (map ?pt (object_values acc))"
    using assms(1,5) acc by (simp add: pipeline_def map_points_count [OF assms(2-4)])
  have wf: "well_filed e gb dk acc" using acc by (rule well_filed_grouped)
  have v: "value_num (?pt g) = of_nat (length (items g))" for g
    by (simp add: value_num_def count_of_def)
  have "sum_list (map value_num pts) = sum_list (map (\<lambda>g. of_nat (length (items g))) (object_values acc))"
    by (simp add: pts sum_list_js_sort comp_def v)
  also have "\<dots> = sum_list (map (\<lambda>g. of_nat (length (items g))) (map snd acc))"
    by (rule sum_list_object_values)
  also have "\<dots> = of_nat (sum_list (map (\<lambda>p. length (items (snd p))) acc))"
    by (induction acc) auto
  also have "\<dots> = of_nat (length (filter (keyed e gb dk) ?xs))"
    using grouped_total [OF acc] by (simp add: well_filed_def)
  finally have total: "sum_list (map value_num pts) = of_nat (length (filter (keyed e gb dk) ?xs))" .
  have "value_num p \<ge> 1" if "p \<in> set pts" for p
  proof -
    from that obtain g where g: "g \<in> set (object_values acc)" and p: "p = ?pt g"
      by (auto simp: pts set_js_sort)
    then have "items g \<noteq> []"
      using wf unfolding well_filed_def set_object_values by auto
    then have "length (items g) \<ge> 1" by (cases "items g") auto
    then show ?thesis by (simp add: p v)
  qed
  then show ?thesis using total by blast
qed

lemma count_returns:
  assumes "m \<noteq> ''taskCount''"
    and "\<forall>i \<in> set (filteredData e dk fs base).
           keyed e gb dk i \<longrightarrow> key_string e gb dk i \<notin> set protoKeys"
  shows "\<exists>pts. pipeline e cls tms base dk fs gb m = Inr pts"
proof -
  obtain acc where acc: "grouped e gb dk [] (filteredData e dk fs base) = Inr acc"
    using grouped_returns [OF assms(2)] by blast
  have mv: "\<exists>v. metric_value e m its = Inr v" for its
    unfolding metric_value_def by (simp only: assms(1) if_False split: if_split) blast
  have "\<exists>ps. map_points (to_point e gb m cls tms) gs = Inr ps" for gs
  proof (induction gs)
    case Nil
    show ?case by simp
  next
    case (Cons g gs)
    obtain v where "metric_value e m (items g) = Inr v" using mv by blast
    then show ?case using Cons by (auto simp: to_point_def)
  qed
  then obtain ps where "map_points (to_point e gb m cls tms) (object_values acc) = Inr ps"
    by blast
  then show ?thesis using acc by (simp add: pipeline_def)
qed

text \<open>
  Claim C9. The conservation fails on a record whose key is the name of a member of
  \<open>Object.prototype\<close>: \<open>acc['constructor']\<close> finds the inherited constructor, no bucket is made,
  and the \<open>push\<close> on its missing \<open>items\<close> throws. No point is returned for a record that
  passed the filter and has a key.
\<close>

theorem prototype_key_throws:
  "pipeline host_utc [] [] [[(''id'', VStr ''d1''), (''campaign'', VStr ''constructor'')]]
     ''donationDate'' no_filters ''campaign'' ''count'' = Inl TypeError"
  by code_simp

section \<open>Properties of the filter predicate engine\<close>

text \<open>
  Claim C8. Without a filter group, \<open>applyFilterLogic\<close> returns the collection as it is:
  the same records in the same order.
\<close>

theorem applyFilterLogic_null:
  "applyFilterLogic ops records None = records"
  by (simp add: applyFilterLogic_def evaluate_def)

theorem applyFilterLogic_null_witness:
  "applyFilterLogic (\<lambda>opr a b. False)
     [[(''id'', VStr ''p1''), (''status'', VStr ''Open'')], [(''id'', VStr ''p2'')]] None
   = [[(''id'', VStr ''p1''), (''status'', VStr ''Open'')], [(''id'', VStr ''p2'')]]"
  using applyFilterLogic_null
    [of "\<lambda>opr a b. False" "[[(''id'', VStr ''p1''), (''status'', VStr ''Open'')], [(''id'', VStr ''p2'')]]"]
  by simp

end
